theory Spec2Isabelle
  imports
    Complex_Main
    "HOL-Library.Sublist"
    "HOL-Library.Multiset"
    "HOL-Library.Char_ord"
    "HOL-Library.List_Lexorder"
    "HOL-Library.Product_Lexorder"
begin

section \<open>Longitudinal statistics: identifiers, slopes and percent changes\<close>

text \<open>
  This theory embeds the three functions of \<^verbatim>\<open>bin/longitudinal_stats.py\<close> that carry
  the longitudinal computation: \<^verbatim>\<open>parse_timepoint_info\<close>, \<^verbatim>\<open>calculate_slopes\<close> and
  \<^verbatim>\<open>calculate_percent_change\<close>.

  Conventions of the embedding.
  \<^item> A Python string is a \<open>string\<close>, one \<open>char\<close> per character: the model covers the
    characters with code points below 256 (Latin-1), and \<open>of_char\<close> is the code point.
    The character classes of Python (\<^verbatim>\<open>str.isdigit\<close>, the digits and the white space of
    \<^verbatim>\<open>int\<close>) are modelled on that range.
  \<^item> An exception is a value \<open>Inl e\<close> of a sum type; a handler of the source is a case
    distinction of the model.
  \<^item> A Python \<^verbatim>\<open>int\<close> is an \<open>int\<close>. The interpreter's optional cap on the length of a
    decimal numeral is a run-time setting and is not modelled.
\<close>

subsection \<open>Python primitives used by the identifier parser\<close>

datatype error = ValueError | IndexError | TypeError

text \<open>\<^verbatim>\<open>sub in s\<close> on strings: \<open>sub\<close> occurs in \<open>s\<close> as a contiguous block.\<close>

fun contains :: "string \<Rightarrow> string \<Rightarrow> bool" where
  "contains sub [] = (sub = [])"
| "contains sub (c # cs) = (prefix sub (c # cs) \<or> contains sub cs)"

text \<open>
  \<^verbatim>\<open>s.split(sep)\<close> for a non-empty separator: scan from the left, cut at every occurrence
  of \<open>sep\<close> and resume behind it. Both call sites pass a non-empty literal, so Python's
  \<^verbatim>\<open>ValueError\<close> for an empty separator cannot arise; with an empty separator the model
  never cuts. The result always has at least one part, so the second branch of the
  inner case distinction is never taken.
\<close>

function py_split :: "string \<Rightarrow> string \<Rightarrow> string list" where
  "py_split sep [] = [[]]"
| "py_split sep (c # cs) =
     (if sep \<noteq> [] \<and> prefix sep (c # cs)
      then [] # py_split sep (drop (length sep) (c # cs))
      else (case py_split sep cs of
              p # ps \<Rightarrow> (c # p) # ps
            | [] \<Rightarrow> [[c]]))"
  by pat_completeness auto
termination
  by (relation "measure (\<lambda>(sep, s). length s)") (auto simp: neq_Nil_conv)

text \<open>
  \<^verbatim>\<open>str.isdigit\<close>: the decimal digits 0 to 9 and the three superscript digits of Latin-1
  (code points 178, 179 and 185).
\<close>

definition isdigit :: "char \<Rightarrow> bool" where
  "isdigit c =
     (let n = (of_char c :: nat) in (48 \<le> n \<and> n \<le> 57) \<or> n = 178 \<or> n = 179 \<or> n = 185)"

text \<open>The digits that \<^verbatim>\<open>int\<close> accepts in base ten, and the value of such a digit.\<close>

definition isdecimal :: "char \<Rightarrow> bool" where
  "isdecimal c = (48 \<le> (of_char c :: nat) \<and> (of_char c :: nat) \<le> 57)"

definition digit_val :: "char \<Rightarrow> int" where
  "digit_val c = int (of_char c) - 48"

text \<open>The value of a string of decimal digits, most significant digit first.\<close>

definition dec_value :: "string \<Rightarrow> int" where
  "dec_value ds = foldl (\<lambda>a c. 10 * a + digit_val c) 0 ds"

text \<open>
  White space as \<^verbatim>\<open>int\<close> skips it at both ends of its argument: tab, line feed, vertical
  tab, form feed, carriage return and space, and the two Latin-1 spaces 133 (next line)
  and 160 (no-break space), which \<^verbatim>\<open>int\<close> turns into a space before it parses. The
  separators 28 to 31 are not skipped.
\<close>

definition isspace :: "char \<Rightarrow> bool" where
  "isspace c =
     (let n = (of_char c :: nat) in (9 \<le> n \<and> n \<le> 13) \<or> n = 32 \<or> n = 133 \<or> n = 160)"

definition strip :: "string \<Rightarrow> string" where
  "strip s = rev (dropWhile isspace (rev (dropWhile isspace s)))"

text \<open>
  The digits of a numeral body: decimal digits, with single underscores allowed between
  two digits. \<open>literal_digits prev s\<close> returns the digits of \<open>s\<close> without the underscores,
  or \<open>None\<close> when \<open>s\<close> has another character, two underscores in a row, or an
  underscore first or last; \<open>prev\<close> tells whether the preceding character was a digit.
\<close>

fun literal_digits :: "bool \<Rightarrow> string \<Rightarrow> string option" where
  "literal_digits prev [] = (if prev then Some [] else None)"
| "literal_digits prev (c # cs) =
     (if isdecimal c then map_option ((#) c) (literal_digits True cs)
      else if c = CHR ''_'' \<and> prev then literal_digits False cs
      else None)"

text \<open>
  \<^verbatim>\<open>int(s)\<close> for a string, base ten: surrounding white space, an optional sign, then the
  numeral body; every other character, a superscript digit included, makes the parse
  fail. \<open>None\<close> models the \<^verbatim>\<open>ValueError\<close> that both call sites catch.
\<close>

definition py_int :: "string \<Rightarrow> int option" where
  "py_int s =
     (case strip s of
        [] \<Rightarrow> None
      | c # cs \<Rightarrow>
          if c = CHR ''+'' then map_option dec_value (literal_digits False cs)
          else if c = CHR ''-'' then map_option (\<lambda>ds. - dec_value ds) (literal_digits False cs)
          else map_option dec_value (literal_digits False (c # cs)))"

text \<open>\<^verbatim>\<open>str(n)\<close> for an integer, as the f-string \<^verbatim>\<open>f"tp{tp_num}"\<close> renders it.\<close>

definition digit_char :: "nat \<Rightarrow> char" where
  "digit_char d = ''0123456789'' ! d"

function nat_digits :: "nat \<Rightarrow> string" where
  "nat_digits n = (if n < 10 then [digit_char n] else nat_digits (n div 10) @ [digit_char (n mod 10)])"
  by pat_completeness auto
termination
  by (relation "measure id") auto

declare nat_digits.simps [simp del]

definition py_str_int :: "int \<Rightarrow> string" where
  "py_str_int i = (if i < 0 then CHR ''-'' # nat_digits (nat (- i)) else nat_digits (nat i))"

subsection \<open>The identifier parser\<close>

text \<open>
  \<^verbatim>\<open>parse_timepoint_info\<close> returns the triple (base id, session id, time point number).
  The index \<^verbatim>\<open>parts[1]\<close> raises \<^verbatim>\<open>IndexError\<close> on a list of one part; the model keeps
  that branch.
\<close>

definition parse_timepoint_info :: "string \<Rightarrow> error + (string \<times> string option \<times> int option)" where
  "parse_timepoint_info subject_id =
     (if contains ''_ses-'' subject_id then
        (case py_split ''_ses-'' subject_id of
           base_id # p1 # _ \<Rightarrow>
             Inr (base_id, Some (''ses-'' @ p1), py_int (filter isdigit p1))
         | _ \<Rightarrow> Inl IndexError)
      else if contains ''_tp'' subject_id then
        (case py_split ''_tp'' subject_id of
           base_id # p1 # _ \<Rightarrow>
             (case py_int p1 of
                Some tp_num \<Rightarrow> Inr (base_id, Some (''tp'' @ py_str_int tp_num), Some tp_num)
              | None \<Rightarrow> Inr (base_id, Some (''tp'' @ p1), None))
         | _ \<Rightarrow> Inl IndexError)
      else Inr (subject_id, None, None))"


subsection \<open>The measurement table\<close>

text \<open>
  Conventions for the numeric part.
  \<^item> A \<^verbatim>\<open>DataFrame\<close> is the list of its rows, in index order. The three grouping columns
    are shared by the input table and both output tables, so they form a parent record.
  \<^item> A float is a \<open>real option\<close>: \<open>None\<close> is \<^verbatim>\<open>NaN\<close>. Arithmetic on floats is exact:
    rounding, overflow and the infinities of IEEE floats are not modelled. The column
    \<^verbatim>\<open>value\<close> is the field \<open>mvalue\<close>, the column \<^verbatim>\<open>structure\<close> the field \<open>structure_name\<close>.
  \<^item> The column \<^verbatim>\<open>timepoint_num\<close> holds what the identifier parser returned: an integer or
    \<^verbatim>\<open>None\<close>. The frame stores it with one of three types, and the integers are taken to
    lie in the 64-bit range.
\<close>

record group_cols =
  base_subject :: string
  measure_type :: string
  structure_name :: string

record measurement = group_cols +
  timepoint_id :: string
  session :: "string option"
  timepoint_num :: "int option"
  mvalue :: "real option"

type_synonym group_key = "string \<times> string \<times> string"

definition key_of :: "measurement \<Rightarrow> group_key" where
  "key_of r = (base_subject r, measure_type r, structure_name r)"

text \<open>
  \<^verbatim>\<open>df.groupby([...])\<close>: one group per distinct key, the groups in ascending key order,
  the rows of a group in their order in the frame.
\<close>

definition groupby :: "measurement list \<Rightarrow> (group_key \<times> measurement list) list" where
  "groupby df =
     map (\<lambda>k. (k, filter (\<lambda>r. key_of r = k) df)) (sort (remdups (map key_of df)))"

text \<open>
  The type of the column \<^verbatim>\<open>timepoint_num\<close> as the frame infers it from all its rows: 64-bit
  integers when every row has a number, floats with \<^verbatim>\<open>NaN\<close> for the missing numbers when
  some rows have one, and Python objects (all \<^verbatim>\<open>None\<close>) when no row has one.
\<close>

datatype dtype = Int64 | Float64 | Object

definition timepoint_dtype :: "measurement list \<Rightarrow> dtype" where
  "timepoint_dtype df =
     (if list_all (\<lambda>r. timepoint_num r = None) df then Object
      else if list_all (\<lambda>r. timepoint_num r \<noteq> None) df then Int64
      else Float64)"

text \<open>
  An integer as a 64-bit float: exact up to \<open>2 ^ 53\<close> in magnitude, beyond that rounded to
  53 significant bits, a tie going to the even neighbour.
\<close>

fun bit_length :: "nat \<Rightarrow> nat" where
  "bit_length n = (if n = 0 then 0 else Suc (bit_length (n div 2)))"

declare bit_length.simps [simp del]

definition float64_of_int :: "int \<Rightarrow> real" where
  "float64_of_int t =
     (if \<bar>t\<bar> \<le> 2 ^ 53 then real_of_int t
      else
        let m = nat \<bar>t\<bar>;
            e = bit_length m - 53;
            q = m div 2 ^ e;
            rest = m mod 2 ^ e;
            q' = (if 2 * rest > 2 ^ e \<or> (2 * rest = 2 ^ e \<and> odd q) then q + 1 else q)
        in (if t < 0 then - 1 else 1) * real (q' * 2 ^ e))"

text \<open>The number a row of the column holds, as the sort and the fit see it.\<close>

definition column_key :: "dtype \<Rightarrow> int \<Rightarrow> real" where
  "column_key dt t = (if dt = Float64 then float64_of_int t else real_of_int t)"

definition stored_num :: "dtype \<Rightarrow> measurement \<Rightarrow> real option" where
  "stored_num dt r = map_option (column_key dt) (timepoint_num r)"

text \<open>
  \<^verbatim>\<open>group.sort_values('timepoint_num')\<close> sorts with the frame's default algorithm, which
  is not stable. The frame takes the rows that have a number, asks NumPy's \<^verbatim>\<open>argsort\<close> for
  the order of their keys, and appends the rows without a number in their original
  order. The \<^verbatim>\<open>argsort\<close> is a parameter \<open>a\<close> of the model: from the list of keys it returns
  the list of positions in sorted order. Its contract is \<open>sorts a\<close>: the result is a
  permutation of the positions, and the keys read in that order ascend. How equal keys
  are ordered is left open. \<open>stable_argsort\<close> is the instance that keeps equal keys in
  their original order.
\<close>

type_synonym argsort = "real list \<Rightarrow> nat list"

definition sorts :: "argsort \<Rightarrow> bool" where
  "sorts a = (\<forall>ks. mset (a ks) = mset [0..<length ks] \<and> sorted (map (\<lambda>i. ks ! i) (a ks)))"

definition stable_argsort :: argsort where
  "stable_argsort ks = map fst (sort_key snd (List.enumerate 0 ks))"

definition sort_values :: "argsort \<Rightarrow> dtype \<Rightarrow> measurement list \<Rightarrow> measurement list" where
  "sort_values a dt g =
     (let non_nans = filter (\<lambda>r. timepoint_num r \<noteq> None) g;
          keys = map (\<lambda>r. column_key dt (the (timepoint_num r))) non_nans
      in map (\<lambda>i. non_nans ! i) (a keys) @ filter (\<lambda>r. timepoint_num r = None) g)"

subsection \<open>The fitting routine\<close>

text \<open>
  \<^verbatim>\<open>stats.linregress\<close> belongs to the SciPy library, not to this program. The functions of
  the program take it as a parameter \<open>lr\<close>: from the array of time points (its type and its
  entries, \<open>None\<close> for a missing number) and the values it returns either an exception or
  the tuple (slope, intercept, r value, p value, standard error).

  A p value is either a number or the two-sided tail probability of Student's t
  distribution, which is kept symbolic: \<open>StudentT df t\<close> stands for the probability of a
  statistic beyond \<open>\<bar>t\<bar>\<close> with \<open>df\<close> degrees of freedom.
\<close>

datatype pvalue = Prob "real option" | StudentT nat real

type_synonym fit = "real option \<times> real option \<times> real option \<times> pvalue \<times> real option"

type_synonym fitter = "dtype \<Rightarrow> int option list \<Rightarrow> real list \<Rightarrow> error + fit"

subsection \<open>Slope estimates\<close>

record slope_row = group_cols +
  n_timepoints :: nat
  baseline_value :: real
  final_value :: real
  slope :: "real option"
  intercept :: "real option"
  r_squared :: "real option"
  p_value :: pvalue
  std_error :: "real option"
  absolute_change :: real
  percent_change :: "real option"
  timepoint_span :: "real option"

text \<open>
  The mask \<^verbatim>\<open>~np.isnan(values)\<close> applied to both arrays: the pairs whose value is a
  number.
\<close>

fun mask_nan :: "(int option \<times> real option) list \<Rightarrow> (int option \<times> real) list" where
  "mask_nan [] = []"
| "mask_nan ((t, None) # ps) = mask_nan ps"
| "mask_nan ((t, Some v) # ps) = (t, v) # mask_nan ps"

text \<open>The arrays \<^verbatim>\<open>timepoints\<close> and \<^verbatim>\<open>values\<close> as they reach the fit, paired up.\<close>

definition surviving_points ::
  "argsort \<Rightarrow> dtype \<Rightarrow> measurement list \<Rightarrow> (int option \<times> real) list" where
  "surviving_points a dt grp =
     (let g = sort_values a dt grp
      in mask_nan (zip (map timepoint_num g) (map mvalue g)))"

text \<open>
  The body of the loop of \<^verbatim>\<open>calculate_slopes\<close> for one group: \<open>Inr None\<close> is
  \<^verbatim>\<open>continue\<close>, \<open>Inl e\<close> an exception, which nothing catches: one of the fit, or the
  \<^verbatim>\<open>TypeError\<close> of the difference \<^verbatim>\<open>timepoints[-1] - timepoints[0]\<close> between two \<^verbatim>\<open>None\<close> of an
  object column. In \<open>percent_change\<close>, \<open>None\<close> is Python's \<^verbatim>\<open>None\<close>.
\<close>

definition slope_row_of ::
  "argsort \<Rightarrow> fitter \<Rightarrow> dtype \<Rightarrow> group_key \<Rightarrow> measurement list \<Rightarrow> error + slope_row option" where
  "slope_row_of a lr dt k grp =
     (if length grp < 2 then Inr None
      else
        let pts = surviving_points a dt grp;
            timepoints = map fst pts;
            values = map snd pts
        in if length timepoints < 2 then Inr None
           else
             (case lr dt timepoints values of
                Inl e \<Rightarrow> Inl e
              | Inr (slope_v, intercept_v, r_value, p_value_v, std_err) \<Rightarrow>
                  if dt = Object then Inl TypeError
                  else
                  let baseline_value = hd values;
                      final_value = last values;
                      percent_change =
                        (if baseline_value \<noteq> 0
                         then Some ((final_value - baseline_value) / baseline_value * 100)
                         else None);
                      absolute_change = final_value - baseline_value
                  in Inr (Some \<lparr>
                       base_subject = fst k,
                       measure_type = fst (snd k),
                       structure_name = snd (snd k),
                       n_timepoints = length timepoints,
                       baseline_value = baseline_value,
                       final_value = final_value,
                       slope = slope_v,
                       intercept = intercept_v,
                       r_squared = map_option (\<lambda>r. r ^ 2) r_value,
                       p_value = p_value_v,
                       std_error = std_err,
                       absolute_change = absolute_change,
                       percent_change = percent_change,
                       timepoint_span =
                         (case (last timepoints, hd timepoints) of
                            (Some b, Some a) \<Rightarrow> Some (column_key dt b - column_key dt a)
                          | _ \<Rightarrow> None)\<rparr>)))"

fun slopes_loop ::
  "argsort \<Rightarrow> fitter \<Rightarrow> dtype \<Rightarrow> (group_key \<times> measurement list) list \<Rightarrow> error + slope_row list" where
  "slopes_loop a lr dt [] = Inr []"
| "slopes_loop a lr dt ((k, grp) # gs) =
     (case slope_row_of a lr dt k grp of
        Inl e \<Rightarrow> Inl e
      | Inr row \<Rightarrow>
          (case slopes_loop a lr dt gs of
             Inl e \<Rightarrow> Inl e
           | Inr rows \<Rightarrow> Inr (case row of None \<Rightarrow> rows | Some r \<Rightarrow> r # rows)))"

definition calculate_slopes ::
  "argsort \<Rightarrow> fitter \<Rightarrow> measurement list \<Rightarrow> error + slope_row list" where
  "calculate_slopes a lr df = slopes_loop a lr (timepoint_dtype df) (groupby df)"

subsection \<open>Changes between consecutive time points\<close>

record change_row = group_cols +
  timepoint_from :: string
  timepoint_to :: string
  tp_num_from :: "int option"
  tp_num_to :: "int option"
  value_from :: real
  value_to :: real
  change_absolute :: real
  change_percent :: real

text \<open>
  The inner loop of \<^verbatim>\<open>calculate_percent_change\<close> over the sorted group: one step per pair
  of neighbours. The columns \<^verbatim>\<open>absolute_change\<close> and \<^verbatim>\<open>percent_change\<close> of this table are
  the fields \<open>change_absolute\<close> and \<open>change_percent\<close>.
\<close>

fun change_rows :: "group_key \<Rightarrow> measurement list \<Rightarrow> change_row list" where
  "change_rows k (row1 # row2 # rest) =
     (case (mvalue row1, mvalue row2) of
        (Some value1, Some value2) \<Rightarrow>
          if value1 \<noteq> 0
          then [\<lparr>base_subject = fst k,
                 measure_type = fst (snd k),
                 structure_name = snd (snd k),
                 timepoint_from = timepoint_id row1,
                 timepoint_to = timepoint_id row2,
                 tp_num_from = timepoint_num row1,
                 tp_num_to = timepoint_num row2,
                 value_from = value1,
                 value_to = value2,
                 change_absolute = value2 - value1,
                 change_percent = (value2 - value1) / value1 * 100\<rparr>]
          else []
      | _ \<Rightarrow> []) @ change_rows k (row2 # rest)"
| "change_rows k _ = []"

definition calculate_percent_change :: "argsort \<Rightarrow> measurement list \<Rightarrow> change_row list" where
  "calculate_percent_change a df =
     concat (map (\<lambda>(k, grp). change_rows k (sort_values a (timepoint_dtype df) grp)) (groupby df))"


subsection \<open>SciPy's linregress, in exact arithmetic\<close>

text \<open>
  The instance of the fitting routine used wherever a concrete fit is needed. It follows
  \<^verbatim>\<open>scipy.stats.linregress(x, y)\<close> of the current releases of SciPy:
  \<^item> the time points are converted to floats, which fails with \<^verbatim>\<open>TypeError\<close> on an object
    array of \<^verbatim>\<open>None\<close>;
  \<^item> when a time point is \<^verbatim>\<open>NaN\<close>, every output is \<^verbatim>\<open>NaN\<close> (the routine's policy for
    \<^verbatim>\<open>NaN\<close> is to propagate it), and likewise for fewer than two points;
  \<^item> when all time points are equal as floats, the routine raises \<^verbatim>\<open>ValueError\<close>;
  \<^item> otherwise it computes the means, the entries of the biased covariance matrix
    \<^verbatim>\<open>np.cov(x, y, bias=1)\<close>, the correlation, the slope and the intercept, with a special
    case for the p value and the standard error of two points.
  The program calls the routine with two arrays of one length and at least two points;
  the first lines of the model beyond that (arrays of different length, fewer than two
  points) are never reached. Floats are exact reals with \<^verbatim>\<open>NaN\<close> as \<open>None\<close>.
\<close>

definition nan_fit :: fit where
  "nan_fit = (None, None, None, Prob None, None)"

definition mean :: "real list \<Rightarrow> real" where
  "mean xs = sum_list xs / real (length xs)"

text \<open>
  Means and the entries of the biased covariance matrix: the mean of \<open>x\<close>, the mean of
  \<open>y\<close>, and the averaged products of deviations \<^verbatim>\<open>ssxm\<close>, \<^verbatim>\<open>ssxym\<close>, \<^verbatim>\<open>ssym\<close>.
\<close>

definition cov_stats :: "real list \<Rightarrow> real list \<Rightarrow> real \<times> real \<times> real \<times> real \<times> real" where
  "cov_stats xs ys =
     (let xmean = mean xs;
          ymean = mean ys;
          dx = map (\<lambda>u. u - xmean) xs;
          dy = map (\<lambda>v. v - ymean) ys
      in (xmean, ymean,
          mean (map2 (*) dx dx),
          mean (map2 (*) dx dy),
          mean (map2 (*) dy dy)))"

text \<open>
  The correlation. When a variance is zero it is \<^verbatim>\<open>NaN\<close> if the covariance is zero too,
  and zero otherwise; else it is the quotient, clipped to the interval from -1 to 1.
\<close>

definition pearson_r :: "real \<Rightarrow> real \<Rightarrow> real \<Rightarrow> real option" where
  "pearson_r ssxm ssxym ssym =
     (if ssxm = 0 \<or> ssym = 0 then (if ssxym = 0 then None else Some 0)
      else
        let q = ssxym / sqrt (ssxm * ssym)
        in Some (if q > 1 then 1 else if q < - 1 then - 1 else q))"

definition TINY :: real where
  "TINY = 1 / 10 ^ 20"

text \<open>
  The t statistic and the standard error of the slope for more than two points, from the
  correlation \<open>r\<close>; \<open>df\<close> is the number of points less two.
\<close>

definition t_statistic :: "nat \<Rightarrow> real \<Rightarrow> real" where
  "t_statistic df r = r * sqrt (real df / ((1 - r + TINY) * (1 + r + TINY)))"

definition slope_stderr :: "nat \<Rightarrow> real \<Rightarrow> real \<Rightarrow> real \<Rightarrow> real" where
  "slope_stderr df r ssxm ssym = sqrt ((1 - r * r) * ssym / ssxm / real df)"

definition linregress :: fitter where
  "linregress dt x y =
     (if dt = Object then Inl TypeError
      else if length x \<noteq> length y then Inl ValueError
      else if length x < 2 \<or> None \<in> set x then Inr nan_fit
      else
        let xs = map (\<lambda>t. float64_of_int (the t)) x
        in if Max (set xs) = Min (set xs) then Inl ValueError
           else
             (case cov_stats xs y of
                (xmean, ymean, ssxm, ssxym, ssym) \<Rightarrow>
                  let n = length xs;
                      r = pearson_r ssxm ssxym ssym;
                      slope_v = ssxym / ssxm;
                      intercept_v = ymean - slope_v * xmean
                  in if n = 2
                     then Inr (Some slope_v, Some intercept_v, r,
                               Prob (Some (if y ! 0 = y ! 1 then 1 else 0)), Some 0)
                     else
                       let df = n - 2
                       in Inr (Some slope_v, Some intercept_v, r,
                               (case r of
                                  Some rv \<Rightarrow> StudentT df (t_statistic df rv)
                                | None \<Rightarrow> Prob None),
                               map_option (\<lambda>rv. slope_stderr df rv ssxm ssym) r)))"

subsection \<open>Facts about the string primitives\<close>

lemma py_split_not_Nil: "py_split sep s \<noteq> []"
  by (induction sep s rule: py_split.induct) (auto split: list.splits)

lemma contains_iff: "contains sub s \<longleftrightarrow> (\<exists>l r. s = l @ sub @ r)"
proof (induction s)
  case Nil
  show ?case by auto
next
  case (Cons c cs)
  show ?case
  proof
    assume "contains sub (c # cs)"
    then consider "prefix sub (c # cs)" | "contains sub cs" by auto
    then show "\<exists>l r. c # cs = l @ sub @ r"
    proof cases
      case 1
      then obtain r where "c # cs = sub @ r" by (auto simp: prefix_def)
      then have "c # cs = [] @ sub @ r" by simp
      then show ?thesis by blast
    next
      case 2
      with Cons.IH obtain l r where "cs = l @ sub @ r" by blast
      then have "c # cs = (c # l) @ sub @ r" by simp
      then show ?thesis by blast
    qed
  next
    assume "\<exists>l r. c # cs = l @ sub @ r"
    then obtain l r where e: "c # cs = l @ sub @ r" by blast
    show "contains sub (c # cs)"
    proof (cases l)
      case Nil
      with e have "prefix sub (c # cs)" by (simp add: prefix_def)
      then show ?thesis by simp
    next
      case (Cons a l')
      with e have "cs = l' @ sub @ r" by simp
      with Cons.IH have "contains sub cs" by blast
      then show ?thesis by simp
    qed
  qed
qed

lemma split_no_occurrence: "\<not> contains sep s \<Longrightarrow> py_split sep s = [s]"
  by (induction s) auto

lemma contains_split_two:
  "sep \<noteq> [] \<Longrightarrow> contains sep s \<Longrightarrow> \<exists>p q ps. py_split sep s = p # q # ps"
proof (induction s)
  case Nil
  then show ?case by simp
next
  case (Cons c cs)
  show ?case
  proof (cases "prefix sep (c # cs)")
    case True
    obtain q ps where "py_split sep (drop (length sep) (c # cs)) = q # ps"
      using py_split_not_Nil by (meson neq_Nil_conv)
    with True Cons.prems(1) show ?thesis by simp
  next
    case False
    with Cons.prems have "contains sep cs" by simp
    with Cons obtain p q ps where "py_split sep cs = p # q # ps" by blast
    with False show ?thesis by simp
  qed
qed

lemma prefix_long: "prefix sep (l @ r) \<Longrightarrow> length sep \<le> length l \<Longrightarrow> prefix sep l"
  by (metis prefix_append prefix_def append_eq_append_conv_if append_take_drop_id)

lemma split_first:
  "sep \<noteq> [] \<Longrightarrow> \<not> contains sep (l @ butlast sep) \<Longrightarrow>
   py_split sep (l @ sep @ rest) = l # py_split sep rest"
proof (induction l)
  case Nil
  then obtain c cs where "sep = c # cs" by (cases sep) auto
  then show ?case by simp
next
  case (Cons a l)
  have np: "\<not> prefix sep ((a # l) @ sep @ rest)"
  proof
    assume p: "prefix sep ((a # l) @ sep @ rest)"
    have "(a # l) @ sep @ rest = ((a # l) @ butlast sep) @ ([last sep] @ rest)"
      using Cons.prems(1) by simp
    moreover have "length sep \<le> length ((a # l) @ butlast sep)" by simp
    ultimately have "prefix sep ((a # l) @ butlast sep)"
      using p prefix_long by metis
    then have "contains sep ((a # l) @ butlast sep)" by simp
    with Cons.prems(2) show False by simp
  qed
  from Cons.prems(2) have "\<not> contains sep (l @ butlast sep)" by simp
  with Cons have "py_split sep (l @ sep @ rest) = l # py_split sep rest" by simp
  with np show ?case by simp
qed


lemma border_ses: "\<not> contains ''_ses-'' r \<Longrightarrow> \<not> contains ''_ses-'' (r @ ''_ses'')"
proof (induction r)
  case Nil
  show ?case by simp
next
  case (Cons a r)
  then have ih: "\<not> contains ''_ses-'' (r @ ''_ses'')" and np: "\<not> prefix ''_ses-'' (a # r)" by auto
  have "\<not> prefix ''_ses-'' (a # r @ ''_ses'')"
  proof
    assume p: "prefix ''_ses-'' (a # r @ ''_ses'')"
    show False
    proof (cases "length (a # r) \<ge> 5")
      case True
      from p have "prefix ''_ses-'' ((a # r) @ ''_ses'')" by (simp only: append_Cons)
      then have "prefix ''_ses-'' (a # r)" by (rule prefix_long) (use True in simp)
      with np show False by simp
    next
      case False
      then have "length r < 4" by simp
      then consider "r = []" | "\<exists>b. r = [b]" | "\<exists>b c. r = [b, c]" | "\<exists>b c d. r = [b, c, d]"
        by (cases r; simp; cases "tl r"; simp; cases "tl (tl r)"; simp; cases "tl (tl (tl r))"; simp) 
      then show False using p by cases auto
    qed
  qed
  with ih show ?case by simp
qed

lemma border_tp: "\<not> contains ''_tp'' r \<Longrightarrow> \<not> contains ''_tp'' (r @ ''_t'')"
proof (induction r)
  case Nil
  show ?case by simp
next
  case (Cons a r)
  then have ih: "\<not> contains ''_tp'' (r @ ''_t'')" and np: "\<not> prefix ''_tp'' (a # r)" by auto
  have "\<not> prefix ''_tp'' (a # r @ ''_t'')"
  proof
    assume p: "prefix ''_tp'' (a # r @ ''_t'')"
    show False
    proof (cases "length (a # r) \<ge> 3")
      case True
      from p have "prefix ''_tp'' ((a # r) @ ''_t'')" by (simp only: append_Cons)
      then have "prefix ''_tp'' (a # r)" by (rule prefix_long) (use True in simp)
      with np show False by simp
    next
      case False
      then have "length r < 2" by simp
      then consider "r = []" | "\<exists>b. r = [b]"
        by (cases r; simp; cases "tl r"; simp)
      then show False using p by cases auto
    qed
  qed
  with ih show ?case by simp
qed

lemma isdecimal_not_space: "isdecimal c \<Longrightarrow> \<not> isspace c"
  by (auto simp: isdecimal_def isspace_def Let_def)

lemma isdecimal_not_sign: "isdecimal c \<Longrightarrow> c \<noteq> CHR ''+'' \<and> c \<noteq> CHR ''-'' \<and> c \<noteq> CHR ''_''"
  by (auto simp: isdecimal_def)

lemma literal_digits_all:
  "\<forall>c\<in>set ds. isdecimal c \<Longrightarrow> ds \<noteq> [] \<or> prev \<Longrightarrow> literal_digits prev ds = Some ds"
  by (induction ds arbitrary: prev) auto

lemma strip_digits: "\<forall>c\<in>set ds. isdecimal c \<Longrightarrow> strip ds = ds"
proof -
  assume a: "\<forall>c\<in>set ds. isdecimal c"
  then have "\<forall>c\<in>set ds. \<not> isspace c" using isdecimal_not_space by blast
  then have 1: "dropWhile isspace ds = ds" by (cases ds) auto
  from a have "\<forall>c\<in>set (rev ds). \<not> isspace c" using isdecimal_not_space by auto
  then have 2: "dropWhile isspace (rev ds) = rev ds" by (cases "rev ds") auto
  show ?thesis by (simp add: strip_def 1 2)
qed

lemma py_int_digits:
  assumes "\<forall>c\<in>set ds. isdecimal c"
  shows "py_int ds = (if ds = [] then None else Some (dec_value ds))"
proof (cases ds)
  case Nil
  then show ?thesis by (simp add: py_int_def strip_def)
next
  case (Cons c cs)
  with assms have d: "isdecimal c" by simp
  have "literal_digits False ds = Some ds" using assms Cons literal_digits_all by blast
  with Cons d isdecimal_not_sign[OF d] show ?thesis
    using strip_digits[OF assms] by (simp add: py_int_def del: literal_digits.simps)
qed

lemma isdigit_not_space: "isdigit c \<Longrightarrow> \<not> isspace c"
  by (auto simp: isdigit_def isspace_def Let_def)

lemma isdigit_not_sign: "isdigit c \<Longrightarrow> c \<noteq> CHR ''+'' \<and> c \<noteq> CHR ''-'' \<and> c \<noteq> CHR ''_''"
  by (auto simp: isdigit_def Let_def)

lemma isdecimal_isdigit: "isdecimal c \<Longrightarrow> isdigit c"
  by (simp add: isdecimal_def isdigit_def Let_def)

lemma literal_digits_foreign:
  "\<exists>c\<in>set ds. \<not> isdecimal c \<and> c \<noteq> CHR ''_'' \<Longrightarrow> literal_digits prev ds = None"
  by (induction ds arbitrary: prev) auto

lemma strip_isdigit: "\<forall>c\<in>set ds. isdigit c \<Longrightarrow> strip ds = ds"
proof -
  assume a: "\<forall>c\<in>set ds. isdigit c"
  then have "\<forall>c\<in>set ds. \<not> isspace c" using isdigit_not_space by blast
  then have 1: "dropWhile isspace ds = ds" by (cases ds) auto
  from a have "\<forall>c\<in>set (rev ds). \<not> isspace c" using isdigit_not_space by auto
  then have 2: "dropWhile isspace (rev ds) = rev ds" by (cases "rev ds") auto
  show ?thesis by (simp add: strip_def 1 2)
qed

lemma py_int_superscript:
  assumes "\<forall>c\<in>set ds. isdigit c" and "\<not> list_all isdecimal ds"
  shows "py_int ds = None"
proof -
  from assms(2) obtain c where c: "c \<in> set ds" "\<not> isdecimal c" by (auto simp: list_all_iff)
  with assms(1) have "c \<noteq> CHR ''_''" using isdigit_not_sign by blast
  with c have l: "literal_digits False ds = None" using literal_digits_foreign by blast
  from c obtain d ds' where ds: "ds = d # ds'" by (cases ds) auto
  with assms(1) have d: "isdigit d" by simp
  from l ds d isdigit_not_sign[OF d] show ?thesis
    using strip_isdigit[OF assms(1)] by (simp add: py_int_def del: literal_digits.simps)
qed

lemma py_int_filter:
  "py_int (filter isdigit r) =
     (if filter isdigit r \<noteq> [] \<and> list_all isdecimal (filter isdigit r)
      then Some (dec_value (filter isdigit r)) else None)"
proof (cases "list_all isdecimal (filter isdigit r)")
  case True
  then have "\<forall>c\<in>set (filter isdigit r). isdecimal c" by (simp add: list_all_iff)
  from py_int_digits[OF this] True show ?thesis by simp
next
  case False
  have "\<forall>c\<in>set (filter isdigit r). isdigit c" by simp
  from py_int_superscript[OF this False] False show ?thesis by simp
qed


lemma digit_val_digit_char: "d < 10 \<Longrightarrow> digit_val (digit_char d) = int d"
proof -
  assume "d < 10"
  then have "d \<in> {0, 1, 2, 3, 4, 5, 6, 7, 8, 9}" by auto
  then show ?thesis by (auto simp: digit_val_def digit_char_def)
qed

lemma isdecimal_digit_char: "d < 10 \<Longrightarrow> isdecimal (digit_char d)"
proof -
  assume "d < 10"
  then have "d \<in> {0, 1, 2, 3, 4, 5, 6, 7, 8, 9}" by auto
  then show ?thesis by (auto simp: isdecimal_def digit_char_def)
qed

lemma dec_value_snoc: "dec_value (ds @ [c]) = 10 * dec_value ds + digit_val c"
  by (simp add: dec_value_def)

lemma nat_digits_isdecimal: "\<forall>c\<in>set (nat_digits n). isdecimal c"
proof (induction n rule: nat_digits.induct)
  case (1 n)
  show ?case
  proof (cases "n < 10")
    case True
    then show ?thesis by (subst nat_digits.simps) (simp add: isdecimal_digit_char)
  next
    case False
    with 1 have "\<forall>c\<in>set (nat_digits (n div 10)). isdecimal c" by simp
    with False show ?thesis by (subst nat_digits.simps) (simp add: isdecimal_digit_char)
  qed
qed

lemma nat_digits_not_Nil: "nat_digits n \<noteq> []"
  by (subst nat_digits.simps) simp

lemma dec_value_nat_digits: "dec_value (nat_digits n) = int n"
proof (induction n rule: nat_digits.induct)
  case (1 n)
  show ?case
  proof (cases "n < 10")
    case True
    then show ?thesis
      by (subst nat_digits.simps) (simp add: dec_value_def digit_val_digit_char)
  next
    case False
    with 1 have "dec_value (nat_digits (n div 10)) = int (n div 10)" by simp
    with False show ?thesis
      by (subst nat_digits.simps) (simp add: dec_value_snoc digit_val_digit_char zdiv_int zmod_int)
  qed
qed

lemma py_int_nat_digits: "py_int (nat_digits n) = Some (int n)"
  using py_int_digits[OF nat_digits_isdecimal, of n]
  by (simp add: nat_digits_not_Nil dec_value_nat_digits)

lemma py_int_str_int: "py_int (py_str_int i) = Some i"
proof (cases "i < 0")
  case False
  then show ?thesis by (simp add: py_str_int_def py_int_nat_digits)
next
  case True
  let ?ds = "nat_digits (nat (- i))"
  have d: "\<forall>c\<in>set ?ds. isdecimal c" by (rule nat_digits_isdecimal)
  have ne: "?ds \<noteq> []" by (rule nat_digits_not_Nil)
  have ns: "\<not> isspace (CHR ''-'')" by (simp add: isspace_def)
  from d have "\<forall>c\<in>set (rev ?ds). \<not> isspace c" using isdecimal_not_space by auto
  with ne have "dropWhile isspace (rev ?ds @ ''-'') = rev ?ds @ ''-''"
    by (cases "rev ?ds") auto
  with ns have st: "strip (CHR ''-'' # ?ds) = CHR ''-'' # ?ds" by (simp add: strip_def)
  have "literal_digits False ?ds = Some ?ds" using d ne literal_digits_all by blast
  with st True show ?thesis
    by (simp add: py_str_int_def py_int_def dec_value_nat_digits del: literal_digits.simps)
qed

lemma strip_surround:
  assumes "list_all isspace w1" and "list_all isspace w2"
      and "x \<noteq> []" and "\<not> isspace (hd x)" and "\<not> isspace (last x)"
  shows "strip (w1 @ x @ w2) = x"
proof -
  from assms(3,4) have 1: "dropWhile isspace x = x" by (cases x) auto
  from assms(1) have "dropWhile isspace (w1 @ x @ w2) = dropWhile isspace (x @ w2)"
    by (intro dropWhile_append2) (simp add: list_all_iff)
  also from assms(3,4) have "\<dots> = x @ w2" by (cases x) auto
  finally have a: "dropWhile isspace (w1 @ x @ w2) = x @ w2" .
  from assms(2) have "dropWhile isspace (rev w2 @ rev x) = dropWhile isspace (rev x)"
    by (intro dropWhile_append2) (simp add: list_all_iff)
  also from assms(3,5) have "\<dots> = rev x" by (cases "rev x") (auto simp: last_rev[symmetric] hd_rev)
  finally have b: "dropWhile isspace (rev (x @ w2)) = rev x" by simp
  show ?thesis by (simp add: strip_def a b del: rev_append)
qed

lemma py_int_spaces_sign:
  assumes "list_all isspace w1" and "list_all isspace w2"
      and "ds \<noteq> []" and "list_all isdecimal ds"
  shows "py_int (w1 @ ds @ w2) = Some (dec_value ds) \<and>
         py_int (w1 @ ''+'' @ ds @ w2) = Some (dec_value ds) \<and>
         py_int (w1 @ ''-'' @ ds @ w2) = Some (- dec_value ds)"
proof -
  from assms(4) have d: "\<forall>c\<in>set ds. isdecimal c" by (simp add: list_all_iff)
  from assms(3) obtain c cs where ds: "ds = c # cs" by (cases ds) auto
  with d have c: "isdecimal c" by simp
  from assms(3) d have "isdecimal (hd ds)" and l: "isdecimal (last ds)" by simp_all
  then have h: "\<not> isspace (hd ds)" "\<not> isspace (last ds)" using isdecimal_not_space by blast+
  have lit: "literal_digits False ds = Some ds" using d assms(3) literal_digits_all by blast
  have 1: "strip (w1 @ ds @ w2) = ds" using assms(1,2,3) h by (rule strip_surround)
  have "strip (w1 @ (CHR ''+'' # ds) @ w2) = CHR ''+'' # ds"
    using assms(1,2) by (rule strip_surround) (use h assms(3) in \<open>simp_all add: isspace_def\<close>)
  then have 2: "strip (w1 @ ''+'' @ ds @ w2) = CHR ''+'' # ds" by simp
  have "strip (w1 @ (CHR ''-'' # ds) @ w2) = CHR ''-'' # ds"
    using assms(1,2) by (rule strip_surround) (use h assms(3) in \<open>simp_all add: isspace_def\<close>)
  then have 3: "strip (w1 @ ''-'' @ ds @ w2) = CHR ''-'' # ds" by simp
  from isdecimal_not_sign[OF c] have ns: "c \<noteq> CHR ''+''" "c \<noteq> CHR ''-''" by simp_all
  have a: "py_int (w1 @ ds @ w2) = Some (dec_value ds)"
    unfolding py_int_def 1 using lit ds ns by (simp del: literal_digits.simps)
  have b: "py_int (w1 @ ''+'' @ ds @ w2) = Some (dec_value ds)"
    unfolding py_int_def 2 using lit by (simp del: literal_digits.simps)
  have e: "py_int (w1 @ ''-'' @ ds @ w2) = Some (- dec_value ds)"
    unfolding py_int_def 3 using lit by (simp del: literal_digits.simps)
  from a b e show ?thesis by blast
qed

section \<open>The identifier parser: claims\<close>

text \<open>
  Claim C5, as the code has it. An identifier is resolved by the session rule exactly when
  it contains the marker \<^verbatim>\<open>_ses-\<close> (underscore included). Write the identifier as
  \<open>l @ ''_ses-'' @ r @ tail\<close>, where the marker first occurs behind \<open>l\<close>, does not occur
  in \<open>r\<close>, and \<open>tail\<close> is empty or starts with the next marker. Then the base subject is
  \<open>l\<close>, the label is \<^verbatim>\<open>ses-\<close> followed by \<open>r\<close>, and the ordinal is the number spelt by the
  characters of \<open>r\<close> that \<^verbatim>\<open>str.isdigit\<close> accepts. It is null when \<open>r\<close> has no such
  character, and also when one of them is a superscript digit, which \<^verbatim>\<open>int\<close> rejects.
  Nothing is asked of \<^verbatim>\<open>_tp\<close>: the rule applies whether or not that marker occurs as
  well. With a single marker this is the split-once rule; behind a second marker the text
  is ignored.
\<close>

theorem session_marker_rule:
  assumes "\<not> contains ''_ses-'' (l @ ''_ses'')"
      and "\<not> contains ''_ses-'' r"
      and "tail = [] \<or> prefix ''_ses-'' tail"
  shows "parse_timepoint_info (l @ ''_ses-'' @ r @ tail) =
           Inr (l, Some (''ses-'' @ r),
                if filter isdigit r \<noteq> [] \<and> list_all isdecimal (filter isdigit r)
                then Some (dec_value (filter isdigit r)) else None)"
proof -
  let ?m = "''_ses-''"
  have c: "contains ?m (l @ ?m @ r @ tail)" using contains_iff by blast
  have "\<not> contains ?m (l @ butlast ?m)" using assms(1) by simp
  then have 1: "py_split ?m (l @ ?m @ r @ tail) = l # py_split ?m (r @ tail)"
    by (rule split_first[rotated]) simp
  have "\<exists>ps. py_split ?m (r @ tail) = r # ps"
  proof (cases "tail = []")
    case True
    then show ?thesis using split_no_occurrence[OF assms(2)] by simp
  next
    case False
    with assms(3) obtain rest where t: "tail = ?m @ rest" by (auto simp: prefix_def)
    have "\<not> contains ?m (r @ butlast ?m)" using border_ses[OF assms(2)] by simp
    then have "py_split ?m (r @ ?m @ rest) = r # py_split ?m rest"
      by (rule split_first[rotated]) simp
    with t show ?thesis by simp
  qed
  then obtain ps where 2: "py_split ?m (r @ tail) = r # ps" by blast
  show ?thesis
    unfolding parse_timepoint_info_def using c 1 2 py_int_filter[of r]
    by (simp del: contains.simps py_split.simps append_assoc filter_append)
qed

theorem session_marker_rule_witness:
  "\<not> contains ''_ses-'' (''sub-001'' @ ''_ses'') \<and> \<not> contains ''_ses-'' ''02'' \<and>
   parse_timepoint_info ''sub-001_ses-02'' = Inr (''sub-001'', Some ''ses-02'', Some 2) \<and>
   parse_timepoint_info ''sub-001_ses-m06_tp1'' = Inr (''sub-001'', Some ''ses-m06_tp1'', Some 61) \<and>
   parse_timepoint_info (''a_ses-1'' @ [CHR 0xB2]) = Inr (''a'', Some (''ses-1'' @ [CHR 0xB2]), None)"
  using session_marker_rule [of "''sub-001''" "''02''" "[]"]
    session_marker_rule [of "''sub-001''" "''m06_tp1''" "[]"]
    session_marker_rule [of "''a''" "''1'' @ [CHR 0xB2]" "[]"]
  by (simp add: isdigit_def isdecimal_def dec_value_def digit_val_def)

text \<open>
  The claim as stated fails twice. With two markers the claim's single split makes the
  label \<^verbatim>\<open>ses-1_ses-2\<close> and the ordinal 12, the code returns \<^verbatim>\<open>ses-1\<close> and 1. An identifier
  that contains \<^verbatim>\<open>ses-\<close> without the underscore is not split at all.
\<close>

theorem session_marker_counterexample:
  "parse_timepoint_info ''a_ses-1_ses-2'' = Inr (''a'', Some ''ses-1'', Some 1) \<and>
   parse_timepoint_info ''a_ses-1_ses-2'' \<noteq> Inr (''a'', Some ''ses-1_ses-2'', Some 12) \<and>
   parse_timepoint_info ''ases-1'' = Inr (''ases-1'', None, None) \<and>
   parse_timepoint_info ''ases-1'' \<noteq> Inr (''a'', Some ''ses-1'', Some 1)"
  by (simp add: parse_timepoint_info_def py_int_def strip_def isspace_def isdigit_def
      isdecimal_def dec_value_def digit_val_def)

text \<open>
  Claim C6, as the code has it. For an identifier without \<^verbatim>\<open>_ses-\<close>, written
  \<open>l @ ''_tp'' @ r @ tail\<close> with the marker \<^verbatim>\<open>_tp\<close> first behind \<open>l\<close>, absent from \<open>r\<close>, and
  \<open>tail\<close> empty or starting with the next marker: the base subject is \<open>l\<close>; when \<open>r\<close>
  parses as an integer the ordinal is that integer and the label is \<^verbatim>\<open>tp\<close> followed by
  the decimal rendering of the integer (which is \<open>r\<close> itself when \<open>r\<close> is such a rendering);
  otherwise the ordinal is null and the label is \<^verbatim>\<open>tp\<close> followed by \<open>r\<close> verbatim. In
  particular \<^verbatim>\<open>sub-007_tp3\<close> resolves to \<^verbatim>\<open>sub-007\<close>, \<^verbatim>\<open>tp3\<close>, 3.

  What parses as an integer is pinned as well: decimal digits behind an optional sign and
  between optional white space parse to the number they spell, so that white space, a
  plus sign and leading zeros are lost in the label; a separator character (code 28)
  before the digits, a blank between them, a doubled underscore or a superscript digit
  make the parse fail.
\<close>

theorem timepoint_marker_rule:
  assumes "\<not> contains ''_ses-'' (l @ ''_tp'' @ r @ tail)"
      and "\<not> contains ''_tp'' (l @ ''_t'')"
      and "\<not> contains ''_tp'' r"
      and "tail = [] \<or> prefix ''_tp'' tail"
  shows "parse_timepoint_info (l @ ''_tp'' @ r @ tail) =
           Inr (l, Some (''tp'' @ (case py_int r of Some n \<Rightarrow> py_str_int n | None \<Rightarrow> r)),
                py_int r) \<and>
         (r = py_str_int n \<longrightarrow>
            parse_timepoint_info (l @ ''_tp'' @ r @ tail) = Inr (l, Some (''tp'' @ r), Some n)) \<and>
         parse_timepoint_info ''sub-007_tp3'' = Inr (''sub-007'', Some ''tp3'', Some 3) \<and>
         (list_all isspace w1 \<and> list_all isspace w2 \<and> ds \<noteq> [] \<and> list_all isdecimal ds \<longrightarrow>
            py_int (w1 @ ds @ w2) = Some (dec_value ds) \<and>
            py_int (w1 @ ''+'' @ ds @ w2) = Some (dec_value ds) \<and>
            py_int (w1 @ ''-'' @ ds @ w2) = Some (- dec_value ds)) \<and>
         parse_timepoint_info ''a_tp 5'' = Inr (''a'', Some ''tp5'', Some 5) \<and>
         parse_timepoint_info ''a_tp+5'' = Inr (''a'', Some ''tp5'', Some 5) \<and>
         parse_timepoint_info ''a_tp-5'' = Inr (''a'', Some ''tp-5'', Some (- 5)) \<and>
         parse_timepoint_info ''a_tp1_0'' = Inr (''a'', Some ''tp10'', Some 10) \<and>
         parse_timepoint_info (''a_tp'' @ [CHR 0xA0, CHR ''5'']) = Inr (''a'', Some ''tp5'', Some 5) \<and>
         parse_timepoint_info (''a_tp'' @ [CHR 0x1C, CHR ''5'']) =
           Inr (''a'', Some (''tp'' @ [CHR 0x1C, CHR ''5'']), None) \<and>
         parse_timepoint_info ''a_tp5 5'' = Inr (''a'', Some ''tp5 5'', None) \<and>
         parse_timepoint_info ''a_tp1__0'' = Inr (''a'', Some ''tp1__0'', None) \<and>
         parse_timepoint_info (''a_tp1'' @ [CHR 0xB2]) =
           Inr (''a'', Some (''tp1'' @ [CHR 0xB2]), None) \<and>
         parse_timepoint_info ''a_tp'' = Inr (''a'', Some ''tp'', None)"
proof -
  let ?m = "''_tp''"
  have c: "contains ?m (l @ ?m @ r @ tail)" using contains_iff by blast
  have "\<not> contains ?m (l @ butlast ?m)" using assms(2) by simp
  then have 1: "py_split ?m (l @ ?m @ r @ tail) = l # py_split ?m (r @ tail)"
    by (rule split_first[rotated]) simp
  have "\<exists>ps. py_split ?m (r @ tail) = r # ps"
  proof (cases "tail = []")
    case True
    then show ?thesis using split_no_occurrence[OF assms(3)] by simp
  next
    case False
    with assms(4) obtain rest where t: "tail = ?m @ rest" by (auto simp: prefix_def)
    have "\<not> contains ?m (r @ butlast ?m)" using border_tp[OF assms(3)] by simp
    then have "py_split ?m (r @ ?m @ rest) = r # py_split ?m rest"
      by (rule split_first[rotated]) simp
    with t show ?thesis by simp
  qed
  then obtain ps where 2: "py_split ?m (r @ tail) = r # ps" by blast
  have g: "parse_timepoint_info (l @ ''_tp'' @ r @ tail) =
           Inr (l, Some (''tp'' @ (case py_int r of Some n \<Rightarrow> py_str_int n | None \<Rightarrow> r)),
                py_int r)"
    unfolding parse_timepoint_info_def using c 1 2 assms(1)
    by (simp del: contains.simps py_split.simps append_assoc split: option.splits)
  have e: "parse_timepoint_info ''sub-007_tp3'' = Inr (''sub-007'', Some ''tp3'', Some 3)"
    by (simp add: parse_timepoint_info_def py_int_def strip_def isspace_def isdecimal_def
        dec_value_def digit_val_def py_str_int_def nat_digits.simps digit_char_def)
  have p: "list_all isspace w1 \<and> list_all isspace w2 \<and> ds \<noteq> [] \<and> list_all isdecimal ds \<longrightarrow>
            py_int (w1 @ ds @ w2) = Some (dec_value ds) \<and>
            py_int (w1 @ ''+'' @ ds @ w2) = Some (dec_value ds) \<and>
            py_int (w1 @ ''-'' @ ds @ w2) = Some (- dec_value ds)"
    using py_int_spaces_sign by blast
  have x1: "parse_timepoint_info ''a_tp 5'' = Inr (''a'', Some ''tp5'', Some 5)"
    and x2: "parse_timepoint_info ''a_tp+5'' = Inr (''a'', Some ''tp5'', Some 5)"
    and x3: "parse_timepoint_info ''a_tp-5'' = Inr (''a'', Some ''tp-5'', Some (- 5))"
    and x4: "parse_timepoint_info ''a_tp1_0'' = Inr (''a'', Some ''tp10'', Some 10)"
    and x5: "parse_timepoint_info (''a_tp'' @ [CHR 0xA0, CHR ''5'']) = Inr (''a'', Some ''tp5'', Some 5)"
    and x6: "parse_timepoint_info (''a_tp'' @ [CHR 0x1C, CHR ''5'']) =
           Inr (''a'', Some (''tp'' @ [CHR 0x1C, CHR ''5'']), None)"
    and x7: "parse_timepoint_info ''a_tp5 5'' = Inr (''a'', Some ''tp5 5'', None)"
    and x8: "parse_timepoint_info ''a_tp1__0'' = Inr (''a'', Some ''tp1__0'', None)"
    and x9: "parse_timepoint_info (''a_tp1'' @ [CHR 0xB2]) =
           Inr (''a'', Some (''tp1'' @ [CHR 0xB2]), None)"
    and x10: "parse_timepoint_info ''a_tp'' = Inr (''a'', Some ''tp'', None)"
    by (simp_all add: parse_timepoint_info_def py_int_def strip_def isspace_def isdecimal_def
        dec_value_def digit_val_def py_str_int_def nat_digits.simps digit_char_def)
  have m: "r = py_str_int n \<longrightarrow>
            parse_timepoint_info (l @ ''_tp'' @ r @ tail) = Inr (l, Some (''tp'' @ r), Some n)"
  proof
    assume r: "r = py_str_int n"
    then have "py_int r = Some n" by (simp add: py_int_str_int)
    with g r show "parse_timepoint_info (l @ ''_tp'' @ r @ tail) = Inr (l, Some (''tp'' @ r), Some n)"
      by (simp del: append_assoc)
  qed
  from g m e p x1 x2 x3 x4 x5 x6 x7 x8 x9 x10 show ?thesis by blast
qed

theorem timepoint_marker_rule_witness:
  "\<not> contains ''_ses-'' ''sub-007_tp03'' \<and> \<not> contains ''_tp'' (''sub-007'' @ ''_t'') \<and>
   \<not> contains ''_tp'' ''03'' \<and>
   parse_timepoint_info ''sub-007_tp03'' = Inr (''sub-007'', Some ''tp3'', Some 3) \<and>
   parse_timepoint_info ''sub-007_tpx'' = Inr (''sub-007'', Some ''tpx'', None) \<and>
   parse_timepoint_info ''sub-007_tp12'' = Inr (''sub-007'', Some ''tp12'', Some 12)"
  using timepoint_marker_rule [of "''sub-007''" "''03''" "[]" 0 "[]" "[]" "''03''"]
    timepoint_marker_rule [of "''sub-007''" "''x''" "[]" 0 "[]" "[]" "''03''"]
    timepoint_marker_rule [of "''sub-007''" "''12''" "[]" 12 "[]" "[]" "''03''"]
  by (simp add: py_int_def strip_def isspace_def isdecimal_def
        dec_value_def digit_val_def py_str_int_def nat_digits.simps digit_char_def)

text \<open>
  The claim as stated fails on a remainder that parses but is not in canonical form: for
  \<^verbatim>\<open>sub-007_tp03\<close> the label is \<^verbatim>\<open>tp3\<close>, not \<^verbatim>\<open>tp03\<close>. It also fails on a second marker:
  the claim's single split leaves the remainder \<^verbatim>\<open>1_tp2\<close>, which is no integer, while the
  code parses \<^verbatim>\<open>1\<close>.
\<close>

theorem timepoint_marker_counterexample:
  "parse_timepoint_info ''sub-007_tp03'' = Inr (''sub-007'', Some ''tp3'', Some 3) \<and>
   parse_timepoint_info ''sub-007_tp03'' \<noteq> Inr (''sub-007'', Some ''tp03'', Some 3) \<and>
   parse_timepoint_info ''a_tp1_tp2'' = Inr (''a'', Some ''tp1'', Some 1) \<and>
   parse_timepoint_info ''a_tp1_tp2'' \<noteq> Inr (''a'', Some ''tp1_tp2'', None)"
  by (simp add: parse_timepoint_info_def py_int_def strip_def isspace_def isdecimal_def
      dec_value_def digit_val_def py_str_int_def nat_digits.simps digit_char_def)


text \<open>
  Claim C10. On every string the parser returns a triple and raises nothing: the index
  \<^verbatim>\<open>parts[1]\<close> is always in range, and a failed integer parse gives a null ordinal. An
  identifier with neither marker is returned unchanged with null label and ordinal;
  behind \<^verbatim>\<open>_ses-\<close> a part without digits gives a null ordinal; behind \<^verbatim>\<open>_tp\<close> a part that
  is no integer gives a null ordinal and keeps the part in the label.
\<close>

theorem parse_timepoint_info_total:
  "(\<exists>b l t. parse_timepoint_info s = Inr (b, l, t)) \<and>
   (\<not> contains ''_ses-'' s \<and> \<not> contains ''_tp'' s \<longrightarrow>
      parse_timepoint_info s = Inr (s, None, None)) \<and>
   (contains ''_ses-'' s \<longrightarrow>
      (\<exists>b p ps. py_split ''_ses-'' s = b # p # ps \<and>
         parse_timepoint_info s =
           Inr (b, Some (''ses-'' @ p),
                if filter isdigit p \<noteq> [] \<and> list_all isdecimal (filter isdigit p)
                then Some (dec_value (filter isdigit p)) else None))) \<and>
   (\<not> contains ''_ses-'' s \<and> contains ''_tp'' s \<longrightarrow>
      (\<exists>b p ps. py_split ''_tp'' s = b # p # ps \<and>
         (py_int p = None \<longrightarrow> parse_timepoint_info s = Inr (b, Some (''tp'' @ p), None)) \<and>
         (\<forall>n. py_int p = Some n \<longrightarrow>
            parse_timepoint_info s = Inr (b, Some (''tp'' @ py_str_int n), Some n))))"
proof -
  have ses: "contains ''_ses-'' s \<Longrightarrow>
      (\<exists>b p ps. py_split ''_ses-'' s = b # p # ps \<and>
         parse_timepoint_info s =
           Inr (b, Some (''ses-'' @ p),
                if filter isdigit p \<noteq> [] \<and> list_all isdecimal (filter isdigit p)
                then Some (dec_value (filter isdigit p)) else None))"
  proof -
    assume c: "contains ''_ses-'' s"
    then obtain b p ps where sp: "py_split ''_ses-'' s = b # p # ps"
      using contains_split_two[of "''_ses-''" s] by auto
    with c have "parse_timepoint_info s = Inr (b, Some (''ses-'' @ p), py_int (filter isdigit p))"
      by (simp add: parse_timepoint_info_def)
    with sp show ?thesis using py_int_filter[of p] by simp
  qed
  have tp: "\<not> contains ''_ses-'' s \<Longrightarrow> contains ''_tp'' s \<Longrightarrow>
      (\<exists>b p ps. py_split ''_tp'' s = b # p # ps \<and>
         (py_int p = None \<longrightarrow> parse_timepoint_info s = Inr (b, Some (''tp'' @ p), None)) \<and>
         (\<forall>n. py_int p = Some n \<longrightarrow>
            parse_timepoint_info s = Inr (b, Some (''tp'' @ py_str_int n), Some n)))"
  proof -
    assume n: "\<not> contains ''_ses-'' s" and c: "contains ''_tp'' s"
    then obtain b p ps where sp: "py_split ''_tp'' s = b # p # ps"
      using contains_split_two[of "''_tp''" s] by auto
    with n c show ?thesis by (simp add: parse_timepoint_info_def)
  qed
  have none: "\<not> contains ''_ses-'' s \<Longrightarrow> \<not> contains ''_tp'' s \<Longrightarrow>
      parse_timepoint_info s = Inr (s, None, None)"
    by (simp add: parse_timepoint_info_def)
  have ex: "\<exists>b l t. parse_timepoint_info s = Inr (b, l, t)"
  proof (cases "contains ''_ses-'' s")
    case True
    with ses show ?thesis by blast
  next
    case False
    show ?thesis
    proof (cases "contains ''_tp'' s")
      case True
      from tp[OF False True] obtain b p ps where
        sp: "py_split ''_tp'' s = b # p # ps" and
        a: "py_int p = None \<longrightarrow> parse_timepoint_info s = Inr (b, Some (''tp'' @ p), None)" and
        b: "\<forall>n. py_int p = Some n \<longrightarrow>
            parse_timepoint_info s = Inr (b, Some (''tp'' @ py_str_int n), Some n)"
        by (elim exE conjE)
      show ?thesis
      proof (cases "py_int p")
        case None
        with a show ?thesis by blast
      next
        case (Some n)
        with b show ?thesis by blast
      qed
    next
      case f: False
      with none[OF False] show ?thesis by blast
    qed
  qed
  from ex none ses tp show ?thesis by blast
qed

theorem parse_timepoint_info_total_witness:
  "parse_timepoint_info ''sub-099'' = Inr (''sub-099'', None, None) \<and>
   parse_timepoint_info ''sub-001_ses-xx'' = Inr (''sub-001'', Some ''ses-xx'', None) \<and>
   parse_timepoint_info ''sub-007_tpB'' = Inr (''sub-007'', Some ''tpB'', None) \<and>
   parse_timepoint_info ''sub-007_tp3'' = Inr (''sub-007'', Some ''tp3'', Some 3)"
  using parse_timepoint_info_total [of "''sub-099''"]
    parse_timepoint_info_total [of "''sub-001_ses-xx''"]
    parse_timepoint_info_total [of "''sub-007_tpB''"]
    parse_timepoint_info_total [of "''sub-007_tp3''"]
  by (simp add: py_int_def strip_def isspace_def isdigit_def isdecimal_def
        dec_value_def digit_val_def py_str_int_def nat_digits.simps digit_char_def)

section \<open>Facts about the table functions\<close>

lemma enumerate_nth: "p \<in> set (List.enumerate 0 ks) \<Longrightarrow> ks ! fst p = snd p"
  by (auto simp: in_set_enumerate_eq)

lemma sorts_stable_argsort: "sorts stable_argsort"
  unfolding sorts_def
proof (intro allI conjI)
  fix ks :: "real list"
  show "mset (stable_argsort ks) = mset [0..<length ks]"
  proof -
    have "mset (stable_argsort ks) = mset (map fst (List.enumerate 0 ks))"
      unfolding stable_argsort_def by (metis mset_map mset_sort)
    also have "map fst (List.enumerate 0 ks) = [0..<length ks]" by (simp add: map_fst_enumerate)
    finally show ?thesis .
  qed
  let ?L = "sort_key snd (List.enumerate 0 ks)"
  have "\<forall>p\<in>set ?L. ks ! fst p = snd p" by (auto dest: enumerate_nth)
  then have "map (\<lambda>i. ks ! i) (map fst ?L) = map snd ?L" by simp
  moreover have "sorted (map snd ?L)" by (rule sorted_sort_key)
  ultimately have "sorted (map (\<lambda>i. ks ! i) (map fst ?L))" by (simp only:)
  then show "sorted (map (\<lambda>i. ks ! i) (stable_argsort ks))" by (simp only: stable_argsort_def)
qed

lemma float64_of_int_exact: "\<bar>t\<bar> \<le> 2 ^ 53 \<Longrightarrow> float64_of_int t = real_of_int t"
  by (simp add: float64_of_int_def)

lemma bit_length_pow2:
  "2 ^ k \<le> n \<Longrightarrow> n < 2 ^ Suc k \<Longrightarrow> bit_length n = Suc k"
proof (induction k arbitrary: n)
  case 0
  then have "n = 1" by simp
  then show ?case by (simp add: bit_length.simps)
next
  case (Suc k)
  then have "2 ^ k \<le> n div 2" and "n div 2 < 2 ^ Suc k" by auto
  with Suc.IH have "bit_length (n div 2) = Suc k" by blast
  moreover from Suc.prems have "n \<noteq> 0" by auto
  ultimately show ?case by (subst bit_length.simps) simp
qed

lemma sorts_perm: "sorts a \<Longrightarrow> mset (a ks) = mset [0..<length ks]"
  by (simp add: sorts_def)

lemma sorts_sorted: "sorts a \<Longrightarrow> sorted (map (\<lambda>i. ks ! i) (a ks))"
  by (simp add: sorts_def)

lemma sorts_index: "sorts a \<Longrightarrow> i \<in> set (a ks) \<Longrightarrow> i < length ks"
proof -
  assume "sorts a" and i: "i \<in> set (a ks)"
  then have "set (a ks) = set [0..<length ks]" using sorts_perm mset_eq_setD by blast
  with i show ?thesis by simp
qed

lemma permuted_rows:
  assumes "sorts a" and "length ks = length xs"
  shows "mset (map (\<lambda>i. xs ! i) (a ks)) = mset xs"
proof -
  have "mset (map (\<lambda>i. xs ! i) (a ks)) = image_mset (\<lambda>i. xs ! i) (mset (a ks))" by simp
  also have "\<dots> = image_mset (\<lambda>i. xs ! i) (mset [0..<length xs])"
    using sorts_perm[OF assms(1), of ks] assms(2) by simp
  also have "\<dots> = mset (map (\<lambda>i. xs ! i) [0..<length xs])" by simp
  also have "\<dots> = mset xs" by (simp only: map_nth)
  finally show ?thesis .
qed

lemma permuted_keys:
  assumes "sorts a"
  shows "map f (map (\<lambda>i. xs ! i) (a (map f xs))) = map (\<lambda>i. map f xs ! i) (a (map f xs))"
proof -
  have "\<forall>i\<in>set (a (map f xs)). i < length xs"
    using sorts_index[OF assms, of _ "map f xs"] by simp
  then show ?thesis by simp
qed

lemma permuted_sorted:
  assumes "sorts a"
  shows "sorted (map f (map (\<lambda>i. xs ! i) (a (map f xs))))"
  unfolding permuted_keys[OF assms] by (rule sorts_sorted[OF assms])

lemma permuted_unique:
  assumes "sorts a" and "inj_on f (set xs)"
  shows "map (\<lambda>i. xs ! i) (a (map f xs)) = sort_key f xs"
proof -
  have "mset xs = mset (map (\<lambda>i. xs ! i) (a (map f xs)))"
    using permuted_rows[OF assms(1), of "map f xs" xs] by simp
  from sort_key_inj_key_eq[OF this assms(2) permuted_sorted[OF assms(1)]]
  show ?thesis by simp
qed

lemma mset_sort_values:
  assumes "sorts a"
  shows "mset (sort_values a dt g) = mset g"
proof -
  let ?nn = "filter (\<lambda>r. timepoint_num r \<noteq> None) g"
  let ?key = "\<lambda>r. column_key dt (the (timepoint_num r))"
  have "mset (map (\<lambda>i. ?nn ! i) (a (map ?key ?nn))) = mset ?nn"
    using assms by (rule permuted_rows) simp
  then have "mset (sort_values a dt g) =
      filter_mset (\<lambda>r. timepoint_num r \<noteq> None) (mset g) +
      filter_mset (\<lambda>r. \<not> timepoint_num r \<noteq> None) (mset g)"
    by (simp add: sort_values_def Let_def)
  then show ?thesis by (simp only: multiset_partition[symmetric])
qed

lemma sort_values_unique:
  assumes "sorts a" and "inj_on (\<lambda>r. column_key dt (the (timepoint_num r)))
                           (set (filter (\<lambda>r. timepoint_num r \<noteq> None) g))"
  shows "sort_values a dt g =
           sort_key (\<lambda>r. column_key dt (the (timepoint_num r)))
             (filter (\<lambda>r. timepoint_num r \<noteq> None) g) @
           filter (\<lambda>r. timepoint_num r = None) g"
  using permuted_unique[OF assms] by (simp add: sort_values_def Let_def)


lemma mask_nan_zip:
  "mask_nan (zip (map f g) (map h g)) =
     map (\<lambda>r. (f r, the (h r))) (filter (\<lambda>r. h r \<noteq> None) g)"
proof (induction g)
  case Nil
  show ?case by simp
next
  case (Cons r g)
  then show ?case by (cases "h r") simp_all
qed

lemma surviving_points_eq:
  "surviving_points a dt g =
     map (\<lambda>r. (timepoint_num r, the (mvalue r)))
       (filter (\<lambda>r. mvalue r \<noteq> None) (sort_values a dt g))"
  by (simp add: surviving_points_def mask_nan_zip)

lemma length_surviving_points:
  assumes "sorts a"
  shows "length (surviving_points a dt g) = length (filter (\<lambda>r. mvalue r \<noteq> None) g)"
proof -
  have "mset (filter (\<lambda>r. mvalue r \<noteq> None) (sort_values a dt g)) =
        mset (filter (\<lambda>r. mvalue r \<noteq> None) g)"
    by (simp add: mset_sort_values[OF assms])
  then have "length (filter (\<lambda>r. mvalue r \<noteq> None) (sort_values a dt g)) =
        length (filter (\<lambda>r. mvalue r \<noteq> None) g)"
    by (metis size_mset)
  then show ?thesis by (simp add: surviving_points_eq)
qed

lemma length_surviving_points_le:
  "sorts a \<Longrightarrow> length (surviving_points a dt g) \<le> length g"
  by (simp add: length_surviving_points)

lemma slope_row_of_Inl:
  assumes "sorts a"
  shows "slope_row_of a lr dt k g = Inl e \<longleftrightarrow>
     2 \<le> length (surviving_points a dt g) \<and>
     (lr dt (map fst (surviving_points a dt g)) (map snd (surviving_points a dt g)) = Inl e \<or>
      (\<exists>f. lr dt (map fst (surviving_points a dt g)) (map snd (surviving_points a dt g)) = Inr f)
        \<and> dt = Object \<and> e = TypeError)"
proof -
  have "length g < 2 \<Longrightarrow> length (surviving_points a dt g) < 2"
    using length_surviving_points_le[OF assms, of dt g] by linarith
  then show ?thesis
    by (auto simp: slope_row_of_def Let_def split: sum.splits prod.splits)
qed

lemma slope_row_of_Some:
  assumes "slope_row_of a lr dt k g = Inr (Some row)"
  shows "2 \<le> length (surviving_points a dt g) \<and> dt \<noteq> Object \<and>
         base_subject row = fst k \<and> measure_type row = fst (snd k) \<and>
         structure_name row = snd (snd k) \<and>
         n_timepoints row = length (surviving_points a dt g) \<and>
         baseline_value row = snd (hd (surviving_points a dt g)) \<and>
         final_value row = snd (last (surviving_points a dt g)) \<and>
         absolute_change row = final_value row - baseline_value row \<and>
         percent_change row =
           (if baseline_value row \<noteq> 0
            then Some ((final_value row - baseline_value row) / baseline_value row * 100)
            else None) \<and>
         (\<exists>r_value. lr dt (map fst (surviving_points a dt g)) (map snd (surviving_points a dt g)) =
            Inr (slope row, intercept row, r_value, p_value row, std_error row) \<and>
            r_squared row = map_option (\<lambda>r. r ^ 2) r_value)"
proof -
  from assms have l: "2 \<le> length (surviving_points a dt g)"
    by (auto simp: slope_row_of_def Let_def split: if_splits)
  then have ne: "surviving_points a dt g \<noteq> []" by auto
  from assms l show ?thesis
    by (auto simp: slope_row_of_def Let_def hd_map last_map ne split: sum.splits prod.splits if_splits)
qed

lemma slope_row_of_returns:
  assumes "sorts a" and "2 \<le> length (surviving_points a dt g)" and "dt \<noteq> Object"
      and "lr dt (map fst (surviving_points a dt g)) (map snd (surviving_points a dt g)) = Inr f"
  shows "\<exists>row. slope_row_of a lr dt k g = Inr (Some row)"
proof -
  from assms(1,2) have "\<not> length g < 2"
    using length_surviving_points_le[OF assms(1), of dt g] by linarith
  with assms show ?thesis
    by (auto simp: slope_row_of_def Let_def split: sum.splits prod.splits)
qed

lemma groupby_member:
  "(k, g) \<in> set (groupby df) \<longleftrightarrow> k \<in> key_of ` set df \<and> g = filter (\<lambda>r. key_of r = k) df"
  by (auto simp: groupby_def)

lemma slopes_loop_Inl:
  "(\<exists>e. slopes_loop srt lr dt gs = Inl e) \<longleftrightarrow> (\<exists>k g e. (k, g) \<in> set gs \<and> slope_row_of srt lr dt k g = Inl e)"
proof (induction gs)
  case Nil
  show ?case by simp
next
  case (Cons a gs)
  obtain k g where a: "a = (k, g)" by (cases a)
  show ?case
  proof (cases "slope_row_of srt lr dt k g")
    case (Inl e)
    then have "\<exists>k' g' e. (k', g') \<in> set (a # gs) \<and> slope_row_of srt lr dt k' g' = Inl e"
      using a by (intro exI[of _ k] exI[of _ g] exI[of _ e]) simp
    moreover from Inl a have "\<exists>e. slopes_loop srt lr dt (a # gs) = Inl e" by simp
    ultimately show ?thesis by blast
  next
    case (Inr row)
    have l: "(\<exists>e. slopes_loop srt lr dt (a # gs) = Inl e) \<longleftrightarrow> (\<exists>e. slopes_loop srt lr dt gs = Inl e)"
      using a Inr by (auto split: sum.splits)
    have r: "(\<exists>k' g' e. (k', g') \<in> set (a # gs) \<and> slope_row_of srt lr dt k' g' = Inl e) \<longleftrightarrow>
             (\<exists>k' g' e. (k', g') \<in> set gs \<and> slope_row_of srt lr dt k' g' = Inl e)"
    proof
      assume "\<exists>k' g' e. (k', g') \<in> set (a # gs) \<and> slope_row_of srt lr dt k' g' = Inl e"
      then obtain k' g' e where m: "(k', g') \<in> set (a # gs)" and i: "slope_row_of srt lr dt k' g' = Inl e"
        by blast
      from i Inr have "(k', g') \<noteq> (k, g)" by auto
      with m a have "(k', g') \<in> set gs" by auto
      with i show "\<exists>k' g' e. (k', g') \<in> set gs \<and> slope_row_of srt lr dt k' g' = Inl e" by blast
    next
      assume "\<exists>k' g' e. (k', g') \<in> set gs \<and> slope_row_of srt lr dt k' g' = Inl e"
      then obtain k' g' e where "(k', g') \<in> set gs" and "slope_row_of srt lr dt k' g' = Inl e" by blast
      then have "(k', g') \<in> set (a # gs) \<and> slope_row_of srt lr dt k' g' = Inl e" by simp
      then show "\<exists>k' g' e. (k', g') \<in> set (a # gs) \<and> slope_row_of srt lr dt k' g' = Inl e" by blast
    qed
    from l r Cons.IH show ?thesis by simp
  qed
qed

lemma slopes_loop_error_source:
  "slopes_loop srt lr dt gs = Inl e \<Longrightarrow> \<exists>k g. (k, g) \<in> set gs \<and> slope_row_of srt lr dt k g = Inl e"
proof (induction gs)
  case Nil
  then show ?case by simp
next
  case (Cons a gs)
  obtain k g where a: "a = (k, g)" by (cases a)
  show ?case
  proof (cases "slope_row_of srt lr dt k g")
    case (Inl e')
    with Cons.prems a have "e' = e" by simp
    with Inl have "(k, g) \<in> set (a # gs) \<and> slope_row_of srt lr dt k g = Inl e" using a by simp
    then show ?thesis by blast
  next
    case (Inr ro)
    with Cons.prems a have "slopes_loop srt lr dt gs = Inl e" by (auto split: sum.splits)
    with Cons.IH obtain k' g' where "(k', g') \<in> set gs" and "slope_row_of srt lr dt k' g' = Inl e"
      by blast
    then have "(k', g') \<in> set (a # gs) \<and> slope_row_of srt lr dt k' g' = Inl e" by simp
    then show ?thesis by blast
  qed
qed

lemma slopes_loop_rows:
  "slopes_loop srt lr dt gs = Inr rows \<Longrightarrow> row \<in> set rows \<Longrightarrow>
     \<exists>k g. (k, g) \<in> set gs \<and> slope_row_of srt lr dt k g = Inr (Some row)"
proof (induction gs arbitrary: rows)
  case Nil
  then show ?case by simp
next
  case (Cons a gs)
  obtain k g where a: "a = (k, g)" by (cases a)
  from Cons.prems a obtain ro rs where
    1: "slope_row_of srt lr dt k g = Inr ro" and 2: "slopes_loop srt lr dt gs = Inr rs" and
    3: "rows = (case ro of None \<Rightarrow> rs | Some r \<Rightarrow> r # rs)"
    by (auto split: sum.splits)
  show ?case
  proof (cases "row \<in> set rs")
    case True
    with Cons.IH[OF 2] obtain k' g' where "(k', g') \<in> set gs"
      and "slope_row_of srt lr dt k' g' = Inr (Some row)" by blast
    then have "(k', g') \<in> set (a # gs) \<and> slope_row_of srt lr dt k' g' = Inr (Some row)" by simp
    then show ?thesis by blast
  next
    case False
    with 3 Cons.prems(2) have "ro = Some row" by (cases ro) auto
    with 1 a have "(k, g) \<in> set (a # gs) \<and> slope_row_of srt lr dt k g = Inr (Some row)" by simp
    then show ?thesis by blast
  qed
qed


lemma change_rows_from_nonzero:
  "d \<in> set (change_rows k g) \<Longrightarrow>
     value_from d \<noteq> 0 \<and>
     change_absolute d = value_to d - value_from d \<and>
     change_percent d = (value_to d - value_from d) / value_from d * 100"
  by (induction k g rule: change_rows.induct) (auto split: option.splits if_splits)

lemma calculate_percent_change_member:
  "d \<in> set (calculate_percent_change a df) \<Longrightarrow>
     \<exists>k g. (k, g) \<in> set (groupby df) \<and> d \<in> set (change_rows k (sort_values a (timepoint_dtype df) g))"
  by (auto simp: calculate_percent_change_def)

lemma groupby_keys_perm:
  assumes "mset df' = mset df"
  shows "sort (remdups (map key_of df')) = sort (remdups (map key_of df))"
proof -
  from assms have "set df' = set df" by (rule mset_eq_setD)
  then have "set (sort (remdups (map key_of df'))) = set (sort (remdups (map key_of df)))"
    by simp
  then show ?thesis
    by (intro sorted_distinct_set_unique) simp_all
qed

lemma distinct_group_ordinals:
  "distinct (map (\<lambda>r. (f r, h r)) df) \<Longrightarrow> distinct (map h (filter (\<lambda>r. f r = k) df))"
  by (induction df) (auto simp: image_iff)

lemma at_most_one_eq:
  assumes "mset xs = mset ys" and "length xs \<le> 1"
  shows "xs = ys"
proof -
  from assms(1) have l: "length ys = length xs" by (metis size_mset)
  show ?thesis
  proof (cases xs)
    case Nil
    with l show ?thesis by simp
  next
    case (Cons a as)
    with assms(2) have xs: "xs = [a]" by simp
    with l obtain b where ys: "ys = [b]" by (cases ys) auto
    from assms(1) xs ys show ?thesis by simp
  qed
qed

lemma timepoint_dtype_perm: "mset df' = mset df \<Longrightarrow> timepoint_dtype df' = timepoint_dtype df"
proof -
  assume "mset df' = mset df"
  then have "set df' = set df" by (rule mset_eq_setD)
  then show ?thesis by (simp add: timepoint_dtype_def list_all_iff)
qed

lemma sort_values_perm:
  assumes "sorts a" and "mset g' = mset g" and "distinct (map (stored_num dt) g)"
  shows "sort_values a dt g' = sort_values a dt g"
proof -
  let ?S = "\<lambda>g. filter (\<lambda>r. timepoint_num r \<noteq> None) g"
  let ?N = "\<lambda>g. filter (\<lambda>r. timepoint_num r = None) g"
  let ?key = "\<lambda>r. column_key dt (the (timepoint_num r))"
  have mS: "mset (?S g') = mset (?S g)" and mN: "mset (?N g') = mset (?N g)"
    using assms(2) by simp_all
  have dN: "distinct (map (stored_num dt) (?N g))" using assms(3) by (rule distinct_map_filter)
  have "length (?N g) \<le> 1"
  proof (cases "?N g")
    case Nil
    then show ?thesis by simp
  next
    case (Cons r rs)
    show ?thesis
    proof (cases rs)
      case Nil
      with Cons show ?thesis by simp
    next
      case (Cons s ss)
      with \<open>?N g = r # rs\<close> have e: "?N g = r # s # ss" by simp
      then have "r \<in> set (?N g)" and "s \<in> set (?N g)" by simp_all
      then have "stored_num dt r = None" and "stored_num dt s = None"
        by (simp_all add: stored_num_def)
      with dN e show ?thesis by simp
    qed
  qed
  with mN have N: "?N g' = ?N g" using at_most_one_eq[of "?N g" "?N g'"] by simp
  have "distinct (map (stored_num dt) (?S g))" using assms(3) by (rule distinct_map_filter)
  then have "inj_on (stored_num dt) (set (?S g))" by (simp add: distinct_map)
  then have inj: "inj_on ?key (set (?S g))"
    by (auto simp: inj_on_def stored_num_def)
  from mS have "set (?S g') = set (?S g)" by (rule mset_eq_setD)
  with inj have inj': "inj_on ?key (set (?S g'))" by simp
  have m: "mset (?S g) = mset (sort_key ?key (?S g'))" using mS by (simp only: mset_sort)
  have sd: "sorted (map ?key (sort_key ?key (?S g')))" by (rule sorted_sort_key)
  have "sort_key ?key (?S g) = sort_key ?key (?S g')"
    using m inj sd by (rule sort_key_inj_key_eq)
  with N show ?thesis
    by (simp only: sort_values_unique[OF assms(1) inj] sort_values_unique[OF assms(1) inj'])
qed

lemma slope_row_of_perm:
  assumes "sorts a" and "mset g' = mset g" and "distinct (map (stored_num dt) g)"
  shows "slope_row_of a lr dt k g' = slope_row_of a lr dt k g"
proof -
  from assms(2) have "length g' = length g" by (metis size_mset)
  moreover have "surviving_points a dt g' = surviving_points a dt g"
    using sort_values_perm[OF assms] by (simp add: surviving_points_def)
  ultimately show ?thesis by (simp add: slope_row_of_def)
qed

lemma slopes_loop_cong:
  "\<forall>k\<in>set ks. slope_row_of a lr dt k (G' k) = slope_row_of a lr dt k (G k) \<Longrightarrow>
     slopes_loop a lr dt (map (\<lambda>k. (k, G' k)) ks) = slopes_loop a lr dt (map (\<lambda>k. (k, G k)) ks)"
  by (induction ks) (simp_all split: sum.splits)

lemma two_positions:
  assumes "mset p = mset [0, Suc 0]"
  shows "p = [0, Suc 0] \<or> p = [Suc 0, 0]"
proof -
  from assms have "length p = 2" by (metis length_Cons list.size(3) size_mset numeral_2_eq_2)
  then obtain x y where p: "p = [x, y]" by (auto simp: length_Suc_conv numeral_2_eq_2)
  with assms have "{#x, y#} = {#0, Suc 0#}" by simp
  then have "(x = 0 \<and> y = Suc 0) \<or> (x = Suc 0 \<and> y = 0)"
    by (auto simp: add_eq_conv_ex)
  with p show ?thesis by blast
qed

lemma order_dependence_any_sort:
  assumes "sorts a"
  shows "set (calculate_percent_change a
     [\<lparr>base_subject = ''sub-001'', measure_type = ''volume'', structure_name = ''Left-Amygdala'',
       timepoint_id = ''sub-001_ses-1'', session = Some ''ses-1'', timepoint_num = Some 1,
       mvalue = Some 1500\<rparr>,
      \<lparr>base_subject = ''sub-001'', measure_type = ''volume'', structure_name = ''Left-Amygdala'',
       timepoint_id = ''sub-001_ses-01'', session = Some ''ses-01'', timepoint_num = Some 1,
       mvalue = Some 1600\<rparr>]) \<noteq>
   set (calculate_percent_change a
     [\<lparr>base_subject = ''sub-001'', measure_type = ''volume'', structure_name = ''Left-Amygdala'',
       timepoint_id = ''sub-001_ses-01'', session = Some ''ses-01'', timepoint_num = Some 1,
       mvalue = Some 1600\<rparr>,
      \<lparr>base_subject = ''sub-001'', measure_type = ''volume'', structure_name = ''Left-Amygdala'',
       timepoint_id = ''sub-001_ses-1'', session = Some ''ses-1'', timepoint_num = Some 1,
       mvalue = Some 1500\<rparr>])"
proof -
  have "mset (a [1, 1]) = mset [0, Suc 0]" using sorts_perm[OF assms, of "[1, 1]"] by (simp add: upt_rec)
  then have "a [1, 1] = [0, Suc 0] \<or> a [1, 1] = [Suc 0, 0]" by (rule two_positions)
  then show ?thesis
  proof
    assume "a [1, 1] = [0, Suc 0]"
    then show ?thesis
      by (simp add: calculate_percent_change_def groupby_def key_of_def sort_values_def
          timepoint_dtype_def column_key_def)
  next
    assume "a [1, 1] = [Suc 0, 0]"
    then show ?thesis
      by (simp add: calculate_percent_change_def groupby_def key_of_def sort_values_def
          timepoint_dtype_def column_key_def)
  qed
qed

lemma linregress_only_ValueError:
  "dt \<noteq> Object \<Longrightarrow> linregress dt x y = Inl e \<Longrightarrow> e = ValueError"
  by (auto simp: linregress_def nan_fit_def Let_def split: if_splits prod.splits)

lemma linregress_Object: "linregress Object x y = Inl TypeError"
  by (simp add: linregress_def)

lemma second_guard: "B \<Longrightarrow> (if A then v else if B then v else w) = v"
  by simp

lemma linregress_identical:
  assumes "dt \<noteq> Object" and "length x = length y" and "2 \<le> length x"
      and "\<forall>u\<in>set x. u = Some t"
  shows "linregress dt x y = Inl ValueError"
proof -
  from assms(3) have ne: "x \<noteq> []" by auto
  have a: "set x \<subseteq> {Some t}" using assms(4) by auto
  have b: "{Some t} \<subseteq> set x" using ne assms(4) by (cases x) auto
  have sx: "set x = {Some t}" using a b by (rule equalityI)
  then have n: "None \<notin> set x" by simp
  have "set (map (\<lambda>t. float64_of_int (the t)) x) = {float64_of_int t}"
    using sx by (simp add: image_def)
  then have "Max (set (map (\<lambda>t. float64_of_int (the t)) x)) =
             Min (set (map (\<lambda>t. float64_of_int (the t)) x))" by simp
  then show ?thesis using assms(1,2,3) n
    by (simp add: linregress_def Let_def)
qed

lemma timepoint_dtype_not_Object:
  "r \<in> set df \<Longrightarrow> timepoint_num r \<noteq> None \<Longrightarrow> timepoint_dtype df \<noteq> Object"
  by (auto simp: timepoint_dtype_def list_all_iff)

lemma set_sort_values: "sorts a \<Longrightarrow> set (sort_values a dt g) = set g"
  using mset_sort_values by (metis mset_eq_setD)

lemma surviving_points_source:
  assumes "sorts a" and "p \<in> set (surviving_points a dt g)"
  shows "\<exists>r\<in>set g. timepoint_num r = fst p \<and> mvalue r = Some (snd p)"
  using assms(2) set_sort_values[OF assms(1), of dt g]
  by (auto simp: surviving_points_eq)

lemma mean2: "mean [a, b] = (a + b) / 2"
  by (simp add: mean_def)

lemma two_point_sums:
  fixes a b c d :: real
  shows "((a - (a + b) / 2) * (c - (c + d) / 2) + (b - (a + b) / 2) * (d - (c + d) / 2)) / 2
         = (b - a) * (d - c) / 4"
  by (simp add: field_simps)

lemma two_point_slope:
  fixes c e :: real
  shows "c \<noteq> 0 \<Longrightarrow> c * e / 4 / (c * c / 4) = e / c"
  by simp

lemma cov_stats_two_points:
  "cov_stats [a, b] [c, d] =
     ((a + b) / 2, (c + d) / 2,
      (b - a) * (b - a) / 4, (b - a) * (d - c) / 4, (d - c) * (d - c) / 4)"
  using two_point_sums[of a b a b] two_point_sums[of a b c d] two_point_sums[of c d c d]
  by (simp add: cov_stats_def mean_def Let_def)

lemma pearson_r_two_points:
  assumes "a \<noteq> b"
  shows "pearson_r ((b - a) * (b - a) / 4) ((b - a) * (d - c) / 4) ((d - c) * (d - c) / 4) =
         (if c = d then None else Some (if (a < b) = (c < d) then 1 else - 1))"
proof (cases "c = d")
  case True
  then show ?thesis by (simp add: pearson_r_def)
next
  case False
  have sq: "sqrt ((b - a) * (b - a) / 4 * ((d - c) * (d - c) / 4)) = \<bar>b - a\<bar> * \<bar>d - c\<bar> / 4"
  proof (rule real_sqrt_unique)
    show "(\<bar>b - a\<bar> * \<bar>d - c\<bar> / 4)\<^sup>2 = (b - a) * (b - a) / 4 * ((d - c) * (d - c) / 4)"
      by (simp add: power2_eq_square field_simps)
    show "0 \<le> \<bar>b - a\<bar> * \<bar>d - c\<bar> / 4" by simp
  qed
  have q: "(b - a) * (d - c) / 4 / (\<bar>b - a\<bar> * \<bar>d - c\<bar> / 4)
        = (if (a < b) = (c < d) then 1 else - 1)"
    using assms False by (auto simp: abs_if field_simps)
  have nz: "\<not> ((b - a) * (b - a) / 4 = 0 \<or> (d - c) * (d - c) / 4 = 0)" using assms False by simp
  have "pearson_r ((b - a) * (b - a) / 4) ((b - a) * (d - c) / 4) ((d - c) * (d - c) / 4) =
        (let q = (if (a < b) = (c < d) then 1 else - 1 :: real)
         in Some (if q > 1 then 1 else if q < - 1 then - 1 else q))"
    unfolding pearson_r_def sq q using nz by (simp only: if_False)
  also have "\<dots> = Some (if (a < b) = (c < d) then 1 else - 1)" by (simp add: Let_def)
  finally show ?thesis using False by simp
qed

lemma linregress_two_points:
  assumes "dt \<noteq> Object" and "float64_of_int t1 \<noteq> float64_of_int t2"
  shows "linregress dt [Some t1, Some t2] [v1, v2] =
     Inr (Some ((v2 - v1) / (float64_of_int t2 - float64_of_int t1)),
          Some ((v1 + v2) / 2 - (v2 - v1) / (float64_of_int t2 - float64_of_int t1) *
                  ((float64_of_int t1 + float64_of_int t2) / 2)),
          (if v1 = v2 then None
           else Some (if (float64_of_int t1 < float64_of_int t2) = (v1 < v2) then 1 else - 1)),
          Prob (Some (if v1 = v2 then 1 else 0)),
          Some 0)"
proof -
  define a b where "a = float64_of_int t1" and "b = float64_of_int t2"
  have ab: "a \<noteq> b" using assms(2) by (simp add: a_def b_def)
  have mm: "\<not> (max a b = min a b)" using ab by (auto simp: max_def min_def)
  have sl: "(b - a) * (v2 - v1) / 4 / ((b - a) * (b - a) / 4) = (v2 - v1) / (b - a)"
    using two_point_slope[of "b - a" "v2 - v1"] ab by simp
  have "linregress dt [Some t1, Some t2] [v1, v2] =
     Inr (Some ((v2 - v1) / (b - a)),
          Some ((v1 + v2) / 2 - (v2 - v1) / (b - a) * ((a + b) / 2)),
          (if v1 = v2 then None else Some (if (a < b) = (v1 < v2) then 1 else - 1)),
          Prob (Some (if v1 = v2 then 1 else 0)),
          Some 0)"
    unfolding linregress_def
    using mm assms(1)
    by (simp add: cov_stats_two_points a_def[symmetric] b_def[symmetric]
        pearson_r_two_points[OF ab] sl Let_def
        del: mult_eq_0_iff divide_eq_0_iff)
  then show ?thesis by (simp add: a_def b_def)
qed

lemma linregress_nan_time:
  "dt \<noteq> Object \<Longrightarrow> length x = length y \<Longrightarrow> None \<in> set x \<Longrightarrow> linregress dt x y = Inr nan_fit"
  by (simp add: linregress_def)




lemma float64_of_int_rounds: "float64_of_int (2 ^ 53 + 1) = 2 ^ 53"
proof -
  have "bit_length (2 ^ 53 + 1) = Suc 53" by (rule bit_length_pow2) simp_all
  then have "bit_length (nat \<bar>2 ^ 53 + 1\<bar>) = 54" by (simp add: nat_add_distrib nat_power_eq)
  then show ?thesis by (simp add: float64_of_int_def Let_def)
qed

lemma two_point_large_ordinals:
  "calculate_slopes stable_argsort linregress
     [\<lparr>base_subject = ''sub-001'', measure_type = ''volume'', structure_name = ''Left-Hippocampus'',
       timepoint_id = ''sub-001_ses-9007199254740992'', session = Some ''ses-9007199254740992'',
       timepoint_num = Some (2 ^ 53), mvalue = Some 4200\<rparr>,
      \<lparr>base_subject = ''sub-001'', measure_type = ''volume'', structure_name = ''Left-Hippocampus'',
       timepoint_id = ''sub-001_ses-9007199254740993'', session = Some ''ses-9007199254740993'',
       timepoint_num = Some (2 ^ 53 + 1), mvalue = Some 4100\<rparr>] = Inl ValueError"
  using float64_of_int_rounds float64_of_int_exact[of "2 ^ 53"]
  by (simp add: calculate_slopes_def groupby_def key_of_def slope_row_of_def timepoint_dtype_def
      surviving_points_def sort_values_def stable_argsort_def column_key_def linregress_def)


lemma sort_values_three:
  assumes "sorts a"
      and "timepoint_num r1 = Some 1" and "timepoint_num r2 = Some 2" and "timepoint_num r3 = Some 3"
  shows "sort_values a Int64 [r1, r2, r3] = [r1, r2, r3]"
    and "sort_values a Int64 [r3, r1, r2] = [r1, r2, r3]"
proof -
  have i1: "inj_on (\<lambda>r. column_key Int64 (the (timepoint_num r)))
             (set (filter (\<lambda>r. timepoint_num r \<noteq> None) [r1, r2, r3]))"
    using assms(2-4) by (auto simp: column_key_def)
  have i2: "inj_on (\<lambda>r. column_key Int64 (the (timepoint_num r)))
             (set (filter (\<lambda>r. timepoint_num r \<noteq> None) [r3, r1, r2]))"
    using assms(2-4) by (auto simp: column_key_def)
  show "sort_values a Int64 [r1, r2, r3] = [r1, r2, r3]"
    unfolding sort_values_unique[OF assms(1) i1] using assms(2-4) by (simp add: column_key_def)
  show "sort_values a Int64 [r3, r1, r2] = [r1, r2, r3]"
    unfolding sort_values_unique[OF assms(1) i2] using assms(2-4) by (simp add: column_key_def)
qed

section \<open>Slope estimates: claims\<close>

text \<open>
  Claim C1, as the code has it. \<^verbatim>\<open>calculate_slopes\<close> neither checks the time points before
  the fit nor handles an exception of the fit. When a group has at least two points with
  a value and all of them carry the same time point number, SciPy's routine rejects them
  (\<^verbatim>\<open>ValueError\<close>: all x values identical); the exception leaves \<^verbatim>\<open>calculate_slopes\<close>, and no
  table of rows is returned at all. This holds however the sort orders equal keys.
\<close>

theorem identical_ordinals_raise:
  assumes "sorts a"
      and "(k, g) \<in> set (groupby df)"
      and "2 \<le> length (surviving_points a (timepoint_dtype df) g)"
      and "\<forall>p\<in>set (surviving_points a (timepoint_dtype df) g). fst p = Some t"
  shows "calculate_slopes a linregress df = Inl ValueError"
proof -
  let ?dt = "timepoint_dtype df"
  let ?x = "map fst (surviving_points a ?dt g)" and ?y = "map snd (surviving_points a ?dt g)"
  from assms(3) obtain p where p: "p \<in> set (surviving_points a ?dt g)"
    by (cases "surviving_points a ?dt g") auto
  with assms(4) have "fst p = Some t" by blast
  with surviving_points_source[OF assms(1) p] obtain r where "r \<in> set g" "timepoint_num r = Some t"
    by auto
  moreover have "set g \<subseteq> set df" using assms(2) by (auto simp: groupby_member)
  ultimately have dt: "?dt \<noteq> Object" using timepoint_dtype_not_Object by (metis option.distinct(1) subsetD)
  have "linregress ?dt ?x ?y = Inl ValueError"
    using dt assms(3,4) by (intro linregress_identical) auto
  with assms(3) have "slope_row_of a linregress ?dt k g = Inl ValueError"
    by (simp add: slope_row_of_Inl[OF assms(1)])
  with assms(2) have "\<exists>e. slopes_loop a linregress ?dt (groupby df) = Inl e"
    using slopes_loop_Inl by blast
  then obtain e where e: "slopes_loop a linregress ?dt (groupby df) = Inl e" by blast
  then obtain k' g' where "slope_row_of a linregress ?dt k' g' = Inl e"
    using slopes_loop_error_source by blast
  then have "e = ValueError" using linregress_only_ValueError[OF dt] dt
    by (auto simp: slope_row_of_Inl[OF assms(1)])
  with e show ?thesis by (simp add: calculate_slopes_def)
qed

theorem identical_ordinals_raise_witness:
  "calculate_slopes stable_argsort linregress
     [\<lparr>base_subject = ''sub-001'', measure_type = ''thickness'', structure_name = ''lh_precuneus'',
       timepoint_id = ''sub-001_ses-02'', session = Some ''ses-02'', timepoint_num = Some 2,
       mvalue = Some (5 / 2)\<rparr>,
      \<lparr>base_subject = ''sub-001'', measure_type = ''thickness'', structure_name = ''lh_precuneus'',
       timepoint_id = ''sub-001_ses-2'', session = Some ''ses-2'', timepoint_num = Some 2,
       mvalue = Some (12 / 5)\<rparr>,
      \<lparr>base_subject = ''sub-001'', measure_type = ''thickness'', structure_name = ''lh_precuneus'',
       timepoint_id = ''sub-001_ses-002'', session = Some ''ses-002'', timepoint_num = Some 2,
       mvalue = Some (23 / 10)\<rparr>] = Inl ValueError"
  (is "calculate_slopes stable_argsort linregress ?df = _")
proof -
  have dt: "timepoint_dtype ?df = Int64" by (simp add: timepoint_dtype_def)
  have 1: "((''sub-001'', ''thickness'', ''lh_precuneus''), ?df) \<in> set (groupby ?df)"
    by (simp add: groupby_def key_of_def)
  have 2: "2 \<le> length (surviving_points stable_argsort (timepoint_dtype ?df) ?df)"
    by (simp add: dt surviving_points_def sort_values_def stable_argsort_def column_key_def)
  have 3: "\<forall>p\<in>set (surviving_points stable_argsort (timepoint_dtype ?df) ?df). fst p = Some 2"
    by (simp add: dt surviving_points_def sort_values_def stable_argsort_def column_key_def)
  show ?thesis using identical_ordinals_raise[OF sorts_stable_argsort 1 2 3] .
qed

text \<open>
  The claim as stated asks for a row with \<^verbatim>\<open>NaN\<close> entries. Two sessions of one subject that
  both resolve to ordinal 1 give no row but the exception.
\<close>

theorem identical_ordinals_counterexample:
  "calculate_slopes stable_argsort linregress
     [\<lparr>base_subject = ''sub-001'', measure_type = ''volume'', structure_name = ''Left-Hippocampus'',
       timepoint_id = ''sub-001_ses-01'', session = Some ''ses-01'', timepoint_num = Some 1,
       mvalue = Some 4200\<rparr>,
      \<lparr>base_subject = ''sub-001'', measure_type = ''volume'', structure_name = ''Left-Hippocampus'',
       timepoint_id = ''sub-001_ses-1'', session = Some ''ses-1'', timepoint_num = Some 1,
       mvalue = Some 4100\<rparr>] = Inl ValueError"
  by (simp add: calculate_slopes_def groupby_def key_of_def slope_row_of_def timepoint_dtype_def
      surviving_points_def sort_values_def stable_argsort_def column_key_def linregress_def
      float64_of_int_exact)

text \<open>
  Claim C2, as the code has it. Before the fit only the rows whose value is \<^verbatim>\<open>NaN\<close> are
  dropped; a row without a time point number stays, with \<^verbatim>\<open>NaN\<close> as its time. For every
  row of the result, \<open>n_timepoints\<close> is the number of records of that group whose value is a
  number, and the points that reached the fit are those records in sorted order. The fit
  is any routine \<open>lr\<close>, the sort any \<open>a\<close> that sorts.
\<close>

theorem n_timepoints_counts_values:
  assumes "sorts a" and "calculate_slopes a lr df = Inr rows" and "row \<in> set rows"
  shows "n_timepoints row =
           length (filter (\<lambda>r. key_of r = (base_subject row, measure_type row, structure_name row)
                                \<and> mvalue r \<noteq> None) df) \<and>
         (\<exists>g. g = filter (\<lambda>r. key_of r = (base_subject row, measure_type row, structure_name row)) df \<and>
            slope_row_of a lr (timepoint_dtype df)
              (base_subject row, measure_type row, structure_name row) g = Inr (Some row) \<and>
            surviving_points a (timepoint_dtype df) g =
              map (\<lambda>r. (timepoint_num r, the (mvalue r)))
                (filter (\<lambda>r. mvalue r \<noteq> None) (sort_values a (timepoint_dtype df) g)))"
proof -
  let ?dt = "timepoint_dtype df"
  from assms(2,3) obtain k g where m: "(k, g) \<in> set (groupby df)"
    and s: "slope_row_of a lr ?dt k g = Inr (Some row)"
    unfolding calculate_slopes_def using slopes_loop_rows by blast
  from m have g: "g = filter (\<lambda>r. key_of r = k) df" by (simp add: groupby_member)
  from slope_row_of_Some[OF s] have k: "k = (base_subject row, measure_type row, structure_name row)"
    and n: "n_timepoints row = length (surviving_points a ?dt g)" by auto
  from n have "n_timepoints row = length (filter (\<lambda>r. mvalue r \<noteq> None) g)"
    by (simp add: length_surviving_points[OF assms(1)])
  with g k have 1: "n_timepoints row =
           length (filter (\<lambda>r. key_of r = (base_subject row, measure_type row, structure_name row)
                                \<and> mvalue r \<noteq> None) df)"
    by (simp add: conj_commute)
  from g k s surviving_points_eq[of a ?dt g] 1 show ?thesis by blast
qed

theorem n_timepoints_counts_values_witness:
  "map_sum id (map n_timepoints)
     (calculate_slopes stable_argsort linregress
       [\<lparr>base_subject = ''sub-002'', measure_type = ''thickness'', structure_name = ''rh_insula'',
         timepoint_id = ''sub-002_tp1'', session = Some ''tp1'', timepoint_num = Some 1,
         mvalue = Some 3\<rparr>,
        \<lparr>base_subject = ''sub-002'', measure_type = ''thickness'', structure_name = ''rh_insula'',
         timepoint_id = ''sub-002_tp2'', session = Some ''tp2'', timepoint_num = Some 2,
         mvalue = None\<rparr>,
        \<lparr>base_subject = ''sub-002'', measure_type = ''thickness'', structure_name = ''rh_insula'',
         timepoint_id = ''sub-002_tp3'', session = Some ''tp3'', timepoint_num = Some 3,
         mvalue = Some 2\<rparr>]) = Inr [2]"
  (is "map_sum id (map n_timepoints) (calculate_slopes stable_argsort linregress ?df) = _")
proof -
  let ?k = "(''sub-002'', ''thickness'', ''rh_insula'')"
  have dt: "timepoint_dtype ?df = Int64" by (simp add: timepoint_dtype_def)
  have g: "groupby ?df = [(?k, ?df)]" by (simp add: groupby_def key_of_def)
  have sp: "surviving_points stable_argsort Int64 ?df = [(Some 1, 3), (Some 3, 2)]"
    by (simp add: surviving_points_def sort_values_def stable_argsort_def column_key_def)
  obtain f where "linregress Int64 [Some 1, Some 3] [3, 2] = Inr f"
    using linregress_two_points[of Int64 1 3 3 2] by (simp add: float64_of_int_exact)
  with sp have "\<exists>row. slope_row_of stable_argsort linregress Int64 ?k ?df = Inr (Some row)"
    by (intro slope_row_of_returns[where f = f] sorts_stable_argsort) simp_all
  then obtain row where r: "slope_row_of stable_argsort linregress Int64 ?k ?df = Inr (Some row)"
    by blast
  with g dt have c: "calculate_slopes stable_argsort linregress ?df = Inr [row]"
    by (simp add: calculate_slopes_def)
  have "row \<in> set [row]" by simp
  from n_timepoints_counts_values[OF sorts_stable_argsort c this]
  have n: "n_timepoints row =
           length (filter (\<lambda>r. key_of r = (base_subject row, measure_type row, structure_name row)
                                \<and> mvalue r \<noteq> None) ?df)"
    by (rule conjunct1)
  from slope_row_of_Some[OF r]
  have k: "(base_subject row, measure_type row, structure_name row) = ?k" by simp
  have "n_timepoints row = 2" unfolding n k by (simp add: key_of_def)
  with c show ?thesis by simp
qed

text \<open>
  The claim as stated counts only points that have both a value and an ordinal. A group
  with one such point and one point whose identifier gave no number has one valid point,
  yet it gets a row, with \<open>n_timepoints = 2\<close>.
\<close>

theorem n_timepoints_counterexample:
  "map_sum id (map n_timepoints)
     (calculate_slopes stable_argsort linregress
       [\<lparr>base_subject = ''sub-002'', measure_type = ''thickness'', structure_name = ''rh_insula'',
         timepoint_id = ''sub-002_tp1'', session = Some ''tp1'', timepoint_num = Some 1,
         mvalue = Some 3\<rparr>,
        \<lparr>base_subject = ''sub-002'', measure_type = ''thickness'', structure_name = ''rh_insula'',
         timepoint_id = ''sub-002_tpB'', session = Some ''tpB'', timepoint_num = None,
         mvalue = Some 2\<rparr>]) = Inr [2] \<and>
   length (filter (\<lambda>r. mvalue r \<noteq> None \<and> timepoint_num r \<noteq> None)
       [\<lparr>base_subject = ''sub-002'', measure_type = ''thickness'', structure_name = ''rh_insula'',
         timepoint_id = ''sub-002_tp1'', session = Some ''tp1'', timepoint_num = Some 1,
         mvalue = Some 3\<rparr>,
        \<lparr>base_subject = ''sub-002'', measure_type = ''thickness'', structure_name = ''rh_insula'',
         timepoint_id = ''sub-002_tpB'', session = Some ''tpB'', timepoint_num = None,
         mvalue = Some 2\<rparr>]) = 1"
  by (simp add: calculate_slopes_def groupby_def key_of_def slope_row_of_def timepoint_dtype_def
      surviving_points_def sort_values_def stable_argsort_def column_key_def linregress_def
      nan_fit_def float64_of_int_exact)







section \<open>Changes between consecutive time points: claims\<close>

text \<open>
  Claim C4, as the code has it. A pair of neighbours whose first value is exactly zero
  adds no row to the table: the loop goes on with the next pair. Hence every row of the
  table has a non-zero \<open>value_from\<close>, and its percent change is the quotient computed from
  it; no row carries a null or infinite percent change, and nothing is raised. This holds
  for every sort \<open>a\<close>.
\<close>

theorem zero_from_value_omitted:
  "(mvalue row1 = Some 0 \<longrightarrow> change_rows k (row1 # row2 # rest) = change_rows k (row2 # rest)) \<and>
   (\<forall>d\<in>set (calculate_percent_change a df).
      value_from d \<noteq> 0 \<and>
      change_absolute d = value_to d - value_from d \<and>
      change_percent d = (value_to d - value_from d) / value_from d * 100)"
proof -
  have 1: "mvalue row1 = Some 0 \<longrightarrow> change_rows k (row1 # row2 # rest) = change_rows k (row2 # rest)"
    by (simp split: option.splits)
  have 2: "\<forall>d\<in>set (calculate_percent_change a df).
      value_from d \<noteq> 0 \<and>
      change_absolute d = value_to d - value_from d \<and>
      change_percent d = (value_to d - value_from d) / value_from d * 100"
    using calculate_percent_change_member change_rows_from_nonzero by blast
  from 1 2 show ?thesis by blast
qed

theorem zero_from_value_omitted_witness:
  "calculate_percent_change stable_argsort
     [\<lparr>base_subject = ''sub-003'', measure_type = ''volume'', structure_name = ''Left-vessel'',
       timepoint_id = ''sub-003_ses-01'', session = Some ''ses-01'', timepoint_num = Some 1,
       mvalue = Some 0\<rparr>,
      \<lparr>base_subject = ''sub-003'', measure_type = ''volume'', structure_name = ''Left-vessel'',
       timepoint_id = ''sub-003_ses-02'', session = Some ''ses-02'', timepoint_num = Some 2,
       mvalue = Some 20\<rparr>,
      \<lparr>base_subject = ''sub-003'', measure_type = ''volume'', structure_name = ''Left-vessel'',
       timepoint_id = ''sub-003_ses-03'', session = Some ''ses-03'', timepoint_num = Some 3,
       mvalue = Some 25\<rparr>] =
     [\<lparr>base_subject = ''sub-003'', measure_type = ''volume'', structure_name = ''Left-vessel'',
       timepoint_from = ''sub-003_ses-02'', timepoint_to = ''sub-003_ses-03'',
       tp_num_from = Some 2, tp_num_to = Some 3, value_from = 20, value_to = 25,
       change_absolute = 5, change_percent = 25\<rparr>]"
  (is "calculate_percent_change stable_argsort [?r1, ?r2, ?r3] = _")
proof -
  let ?k = "(''sub-003'', ''volume'', ''Left-vessel'')"
  have g: "groupby [?r1, ?r2, ?r3] = [(?k, [?r1, ?r2, ?r3])]" by (simp add: groupby_def key_of_def)
  have dt: "timepoint_dtype [?r1, ?r2, ?r3] = Int64" by (simp add: timepoint_dtype_def)
  have s: "sort_values stable_argsort Int64 [?r1, ?r2, ?r3] = [?r1, ?r2, ?r3]"
    by (simp add: sort_values_def stable_argsort_def column_key_def)
  have "mvalue ?r1 = Some 0" by simp
  with zero_from_value_omitted[of ?r1 ?k ?r2 "[?r3]" stable_argsort "[]"]
  have "change_rows ?k [?r1, ?r2, ?r3] = change_rows ?k [?r2, ?r3]" by blast
  with g s dt show ?thesis by (simp add: calculate_percent_change_def)
qed

text \<open>
  The claim as stated asks for a row with a null percent change. A series of a zero
  volume followed by a volume of 20 gives no row at all.
\<close>

theorem zero_from_value_counterexample:
  "calculate_percent_change stable_argsort
     [\<lparr>base_subject = ''sub-003'', measure_type = ''volume'', structure_name = ''Left-vessel'',
       timepoint_id = ''sub-003_ses-01'', session = Some ''ses-01'', timepoint_num = Some 1,
       mvalue = Some 0\<rparr>,
      \<lparr>base_subject = ''sub-003'', measure_type = ''volume'', structure_name = ''Left-vessel'',
       timepoint_id = ''sub-003_ses-02'', session = Some ''ses-02'', timepoint_num = Some 2,
       mvalue = Some 20\<rparr>] = []"
  by (simp add: calculate_percent_change_def groupby_def key_of_def sort_values_def
      timepoint_dtype_def stable_argsort_def column_key_def)

text \<open>
  Claim C8. A series with the values 10, 20, 15 at the ordinals 1, 2, 3, whatever the
  names of subject, measurement and structure, yields exactly two rows: from 1 to 2 an
  absolute change of 10 and a percent change of 100, from 2 to 3 an absolute change of -5
  and a percent change of -25. The records may arrive in another order, and the sort may
  be any \<open>a\<close> that sorts: the three keys differ.
\<close>

theorem adjacency_example:
  assumes "sorts a"
  shows
  "calculate_percent_change a
     [\<lparr>base_subject = b, measure_type = m, structure_name = s,
       timepoint_id = i1, session = l1, timepoint_num = Some 1, mvalue = Some 10\<rparr>,
      \<lparr>base_subject = b, measure_type = m, structure_name = s,
       timepoint_id = i2, session = l2, timepoint_num = Some 2, mvalue = Some 20\<rparr>,
      \<lparr>base_subject = b, measure_type = m, structure_name = s,
       timepoint_id = i3, session = l3, timepoint_num = Some 3, mvalue = Some 15\<rparr>] =
     [\<lparr>base_subject = b, measure_type = m, structure_name = s,
       timepoint_from = i1, timepoint_to = i2,
       tp_num_from = Some 1, tp_num_to = Some 2, value_from = 10, value_to = 20,
       change_absolute = 10, change_percent = 100\<rparr>,
      \<lparr>base_subject = b, measure_type = m, structure_name = s,
       timepoint_from = i2, timepoint_to = i3,
       tp_num_from = Some 2, tp_num_to = Some 3, value_from = 20, value_to = 15,
       change_absolute = - 5, change_percent = - 25\<rparr>] \<and>
   calculate_percent_change a
     [\<lparr>base_subject = b, measure_type = m, structure_name = s,
       timepoint_id = i3, session = l3, timepoint_num = Some 3, mvalue = Some 15\<rparr>,
      \<lparr>base_subject = b, measure_type = m, structure_name = s,
       timepoint_id = i1, session = l1, timepoint_num = Some 1, mvalue = Some 10\<rparr>,
      \<lparr>base_subject = b, measure_type = m, structure_name = s,
       timepoint_id = i2, session = l2, timepoint_num = Some 2, mvalue = Some 20\<rparr>] =
     [\<lparr>base_subject = b, measure_type = m, structure_name = s,
       timepoint_from = i1, timepoint_to = i2,
       tp_num_from = Some 1, tp_num_to = Some 2, value_from = 10, value_to = 20,
       change_absolute = 10, change_percent = 100\<rparr>,
      \<lparr>base_subject = b, measure_type = m, structure_name = s,
       timepoint_from = i2, timepoint_to = i3,
       tp_num_from = Some 2, tp_num_to = Some 3, value_from = 20, value_to = 15,
       change_absolute = - 5, change_percent = - 25\<rparr>]"
  (is "calculate_percent_change a [?r1, ?r2, ?r3] = ?out \<and> calculate_percent_change a [?r3, ?r1, ?r2] = ?out")
proof -
  have t: "timepoint_num ?r1 = Some 1" "timepoint_num ?r2 = Some 2" "timepoint_num ?r3 = Some 3"
    by simp_all
  note sv = sort_values_three[OF assms t]
  have d1: "timepoint_dtype [?r1, ?r2, ?r3] = Int64" by (simp add: timepoint_dtype_def)
  have d2: "timepoint_dtype [?r3, ?r1, ?r2] = Int64" by (simp add: timepoint_dtype_def)
  have g1: "groupby [?r1, ?r2, ?r3] = [((b, m, s), [?r1, ?r2, ?r3])]"
    by (simp add: groupby_def key_of_def)
  have g2: "groupby [?r3, ?r1, ?r2] = [((b, m, s), [?r3, ?r1, ?r2])]"
    by (simp add: groupby_def key_of_def)
  have 1: "calculate_percent_change a [?r1, ?r2, ?r3] = ?out"
    unfolding calculate_percent_change_def d1 g1 by (simp add: sv(1))
  have 2: "calculate_percent_change a [?r3, ?r1, ?r2] = ?out"
    unfolding calculate_percent_change_def d2 g2 by (simp add: sv(2))
  from 1 2 show ?thesis by (rule conjI)
qed

theorem adjacency_example_witness:
  "calculate_percent_change stable_argsort
     [\<lparr>base_subject = ''sub-007'', measure_type = ''volume'', structure_name = ''Right-Putamen'',
       timepoint_id = ''sub-007_tp3'', session = Some ''tp3'', timepoint_num = Some 3,
       mvalue = Some 15\<rparr>,
      \<lparr>base_subject = ''sub-007'', measure_type = ''volume'', structure_name = ''Right-Putamen'',
       timepoint_id = ''sub-007_tp1'', session = Some ''tp1'', timepoint_num = Some 1,
       mvalue = Some 10\<rparr>,
      \<lparr>base_subject = ''sub-007'', measure_type = ''volume'', structure_name = ''Right-Putamen'',
       timepoint_id = ''sub-007_tp2'', session = Some ''tp2'', timepoint_num = Some 2,
       mvalue = Some 20\<rparr>] =
     [\<lparr>base_subject = ''sub-007'', measure_type = ''volume'', structure_name = ''Right-Putamen'',
       timepoint_from = ''sub-007_tp1'', timepoint_to = ''sub-007_tp2'',
       tp_num_from = Some 1, tp_num_to = Some 2, value_from = 10, value_to = 20,
       change_absolute = 10, change_percent = 100\<rparr>,
      \<lparr>base_subject = ''sub-007'', measure_type = ''volume'', structure_name = ''Right-Putamen'',
       timepoint_from = ''sub-007_tp2'', timepoint_to = ''sub-007_tp3'',
       tp_num_from = Some 2, tp_num_to = Some 3, value_from = 20, value_to = 15,
       change_absolute = - 5, change_percent = - 25\<rparr>]"
  using adjacency_example[OF sorts_stable_argsort, of "''sub-007''" "''volume''" "''Right-Putamen''"
      "''sub-007_tp1''" "Some ''tp1''" "''sub-007_tp2''" "Some ''tp2''" "''sub-007_tp3''" "Some ''tp3''"]
  by (rule conjunct2)

section \<open>The order of the input: claims\<close>

text \<open>
  Claim C3, as the code has it. Let no two records of the table share both the group and
  the time point number as the column stores it (a missing number counting as one value).
  Then for every reordering of the records \<^verbatim>\<open>calculate_slopes\<close> returns the same result, rows
  or exception, and \<^verbatim>\<open>calculate_percent_change\<close> returns the same rows, in the same order.
  The fit is any routine \<open>lr\<close>, the sort any \<open>a\<close> that sorts: no assumption is made on the
  order it gives to equal keys.
\<close>

theorem order_independence:
  assumes "sorts a"
      and "mset df' = mset df"
      and "distinct (map (\<lambda>r. (key_of r, stored_num (timepoint_dtype df) r)) df)"
  shows "calculate_slopes a lr df' = calculate_slopes a lr df \<and>
         calculate_percent_change a df' = calculate_percent_change a df"
proof -
  let ?G = "\<lambda>k. filter (\<lambda>r. key_of r = k) df" and ?G' = "\<lambda>k. filter (\<lambda>r. key_of r = k) df'"
  let ?ks = "sort (remdups (map key_of df))"
  let ?dt = "timepoint_dtype df"
  have dt: "timepoint_dtype df' = ?dt" using assms(2) by (rule timepoint_dtype_perm)
  have ks: "sort (remdups (map key_of df')) = ?ks" using assms(2) by (rule groupby_keys_perm)
  have m: "mset (?G' k) = mset (?G k)" for k using assms(2) by simp
  have d: "distinct (map (stored_num ?dt) (?G k))" for k
    using assms(3) by (rule distinct_group_ordinals)
  have "slope_row_of a lr ?dt k (?G' k) = slope_row_of a lr ?dt k (?G k)" for k
    using assms(1) m d by (rule slope_row_of_perm)
  then have "slopes_loop a lr ?dt (map (\<lambda>k. (k, ?G' k)) ?ks) =
             slopes_loop a lr ?dt (map (\<lambda>k. (k, ?G k)) ?ks)"
    by (intro slopes_loop_cong) simp
  then have 1: "calculate_slopes a lr df' = calculate_slopes a lr df"
    by (simp add: calculate_slopes_def groupby_def ks dt)
  have "sort_values a ?dt (?G' k) = sort_values a ?dt (?G k)" for k
    using assms(1) m d by (rule sort_values_perm)
  then have 2: "calculate_percent_change a df' = calculate_percent_change a df"
    by (simp add: calculate_percent_change_def groupby_def ks dt comp_def)
  from 1 2 show ?thesis by blast
qed

theorem order_independence_witness:
  "calculate_slopes stable_argsort linregress
     [\<lparr>base_subject = ''sub-001'', measure_type = ''volume'', structure_name = ''Left-Amygdala'',
       timepoint_id = ''sub-001_ses-02'', session = Some ''ses-02'', timepoint_num = Some 2,
       mvalue = Some 1500\<rparr>,
      \<lparr>base_subject = ''sub-001'', measure_type = ''volume'', structure_name = ''Left-Amygdala'',
       timepoint_id = ''sub-001_ses-01'', session = Some ''ses-01'', timepoint_num = Some 1,
       mvalue = Some 1600\<rparr>] =
   calculate_slopes stable_argsort linregress
     [\<lparr>base_subject = ''sub-001'', measure_type = ''volume'', structure_name = ''Left-Amygdala'',
       timepoint_id = ''sub-001_ses-01'', session = Some ''ses-01'', timepoint_num = Some 1,
       mvalue = Some 1600\<rparr>,
      \<lparr>base_subject = ''sub-001'', measure_type = ''volume'', structure_name = ''Left-Amygdala'',
       timepoint_id = ''sub-001_ses-02'', session = Some ''ses-02'', timepoint_num = Some 2,
       mvalue = Some 1500\<rparr>] \<and>
   calculate_percent_change stable_argsort
     [\<lparr>base_subject = ''sub-001'', measure_type = ''volume'', structure_name = ''Left-Amygdala'',
       timepoint_id = ''sub-001_ses-02'', session = Some ''ses-02'', timepoint_num = Some 2,
       mvalue = Some 1500\<rparr>,
      \<lparr>base_subject = ''sub-001'', measure_type = ''volume'', structure_name = ''Left-Amygdala'',
       timepoint_id = ''sub-001_ses-01'', session = Some ''ses-01'', timepoint_num = Some 1,
       mvalue = Some 1600\<rparr>] =
   calculate_percent_change stable_argsort
     [\<lparr>base_subject = ''sub-001'', measure_type = ''volume'', structure_name = ''Left-Amygdala'',
       timepoint_id = ''sub-001_ses-01'', session = Some ''ses-01'', timepoint_num = Some 1,
       mvalue = Some 1600\<rparr>,
      \<lparr>base_subject = ''sub-001'', measure_type = ''volume'', structure_name = ''Left-Amygdala'',
       timepoint_id = ''sub-001_ses-02'', session = Some ''ses-02'', timepoint_num = Some 2,
       mvalue = Some 1500\<rparr>]"
  (is "calculate_slopes stable_argsort linregress [?r2, ?r1] = _ \<and> _")
proof -
  have 1: "mset [?r2, ?r1] = mset [?r1, ?r2]" by simp
  have 2: "distinct (map (\<lambda>r. (key_of r, stored_num (timepoint_dtype [?r1, ?r2]) r)) [?r1, ?r2])"
    by (simp add: key_of_def stored_num_def column_key_def timepoint_dtype_def)
  show ?thesis using order_independence[OF sorts_stable_argsort 1 2, of linregress] .
qed

text \<open>
  The claim as stated covers every table. When two records of a group carry the same
  number, their order after the sort decides which value is the earlier one, and that
  order depends on the order of the input: the two sessions below give a change from 1500
  to 1600 in one order of the input and from 1600 to 1500 in the other. Lemma
  \<open>order_dependence_any_sort\<close> shows the same for every sort.
\<close>

theorem order_dependence_counterexample:
  "mset
     [\<lparr>base_subject = ''sub-001'', measure_type = ''volume'', structure_name = ''Left-Amygdala'',
       timepoint_id = ''sub-001_ses-1'', session = Some ''ses-1'', timepoint_num = Some 1,
       mvalue = Some 1500\<rparr>,
      \<lparr>base_subject = ''sub-001'', measure_type = ''volume'', structure_name = ''Left-Amygdala'',
       timepoint_id = ''sub-001_ses-01'', session = Some ''ses-01'', timepoint_num = Some 1,
       mvalue = Some 1600\<rparr>] =
   mset
     [\<lparr>base_subject = ''sub-001'', measure_type = ''volume'', structure_name = ''Left-Amygdala'',
       timepoint_id = ''sub-001_ses-01'', session = Some ''ses-01'', timepoint_num = Some 1,
       mvalue = Some 1600\<rparr>,
      \<lparr>base_subject = ''sub-001'', measure_type = ''volume'', structure_name = ''Left-Amygdala'',
       timepoint_id = ''sub-001_ses-1'', session = Some ''ses-1'', timepoint_num = Some 1,
       mvalue = Some 1500\<rparr>] \<and>
   set (calculate_percent_change stable_argsort
     [\<lparr>base_subject = ''sub-001'', measure_type = ''volume'', structure_name = ''Left-Amygdala'',
       timepoint_id = ''sub-001_ses-1'', session = Some ''ses-1'', timepoint_num = Some 1,
       mvalue = Some 1500\<rparr>,
      \<lparr>base_subject = ''sub-001'', measure_type = ''volume'', structure_name = ''Left-Amygdala'',
       timepoint_id = ''sub-001_ses-01'', session = Some ''ses-01'', timepoint_num = Some 1,
       mvalue = Some 1600\<rparr>]) \<noteq>
   set (calculate_percent_change stable_argsort
     [\<lparr>base_subject = ''sub-001'', measure_type = ''volume'', structure_name = ''Left-Amygdala'',
       timepoint_id = ''sub-001_ses-01'', session = Some ''ses-01'', timepoint_num = Some 1,
       mvalue = Some 1600\<rparr>,
      \<lparr>base_subject = ''sub-001'', measure_type = ''volume'', structure_name = ''Left-Amygdala'',
       timepoint_id = ''sub-001_ses-1'', session = Some ''ses-1'', timepoint_num = Some 1,
       mvalue = Some 1500\<rparr>])"
  by (simp add: calculate_percent_change_def groupby_def key_of_def sort_values_def
      timepoint_dtype_def column_key_def stable_argsort_def)

end
